theory Spec2Isabelle
  imports Complex_Main "HOL-Library.Word"
begin

section \<open>Auxiliary-engine coordination of the search (src/mcts/auxengine.cc)\<close>

text \<open>
  The file under study schedules queries to external helper engines: search workers enqueue
  tree nodes, helper threads dequeue them, talk to a helper process over a line protocol and
  push the decoded principal variations onto a queue that the primary search consumes.

  The embedding follows one thread at a time. The shared part of \<open>Search\<close> and of
  \<open>search_stats_\<close> that the file touches is a record that every routine takes and returns.
  \<open>std::queue\<close> is a list with the front at the head; \<open>push\<close> appends at the end.
  \<open>front()\<close> or \<open>pop()\<close> on an empty queue and an index outside a vector are undefined
  behaviour in C++ and are an error value of the model. The C++ \<open>int\<close> counters and tags
  are HOL integers: none of the properties below depends on 32-bit wrap-around, and the one
  place where the range matters (reading the depth out of a helper line) checks it.
  Log output (\<open>LOGFILE\<close>) and wall-clock statistics are left out. The node type \<open>'n\<close>
  stands for \<open>Node*\<close>, \<open>'m\<close> for \<open>Move\<close>, \<open>'b\<close> for \<open>ChessBoard\<close> and
  \<open>'p\<close> for \<open>Position\<close>.
\<close>

subsection \<open>Shared state\<close>

datatype error = UndefinedBehaviour | AuxEngineDied

text \<open>
  The lines that \<open>DoAuxEngine\<close> writes to a helper: \<^verbatim>\<open>position fen ...\<close> (the whole
  line is kept), \<^verbatim>\<open>go infinite\<close>, \<^verbatim>\<open>go movetime\<close> with the time, and \<^verbatim>\<open>stop\<close>.
\<close>

datatype command = Position string | GoInfinite | GoMovetime int | Stop

record ('n, 'm) search =
  stop :: bool
  persistent_queue_of_nodes :: "'n list"
  source_of_queued_nodes :: "int list"
  nodes_added_by_the_helper :: "'n list"
  source_of_added_nodes :: "int list"
  fast_track_extend_and_evaluate_queue :: "'m list list"
  source_of_PVs :: "int list"
  AuxEngineMove :: "'n \<Rightarrow> 16 word"
  auxengine_stopped :: "bool list"
  final_purge_run :: bool
  New_Game :: bool
  size_of_queue_at_start :: int
  thread_counter :: int
  AuxEngineTime :: int
  AuxEngineThreshold :: int
  Total_number_of_nodes :: int
  Number_of_nodes_added_by_AuxEngine :: int
  auxengine_num_evals :: int
  notify_one_calls :: nat
  opstreams :: "(nat \<times> command) list"

text \<open>
  \<open>notify_one_calls\<close> counts the calls of \<open>auxengine_cv_.notify_one()\<close>;
  \<open>opstreams\<close> is the log of the lines written to \<open>vector_of_opstreams[index]\<close>, each
  with the index of the helper it went to, oldest first.
\<close>

subsection \<open>\<open>SearchWorker::AuxMaybeEnqueueNode\<close> (lines 69-90)\<close>

definition AuxMaybeEnqueueNode ::
  "'n \<Rightarrow> int \<Rightarrow> ('n, 'm) search \<Rightarrow> ('n, 'm) search" where
  "AuxMaybeEnqueueNode n source s =
     (if stop s then s
      else s\<lparr>AuxEngineMove := (AuxEngineMove s)(n := 0xfffe),
             persistent_queue_of_nodes := persistent_queue_of_nodes s @ [n],
             source_of_queued_nodes := source_of_queued_nodes s @ [source],
             notify_one_calls := notify_one_calls s + 1\<rparr>)"

subsection \<open>The purge at the start of a move (\<open>Search::AuxEngineWorker\<close>, lines 195-293)\<close>

text \<open>
  The first loop of the purge (lines 228-237 and 255-264): two elements are popped per round,
  the node and the marker that follows it, and the node is kept when the marker is the root.
\<close>

function purge_loop ::
  "int \<Rightarrow> int \<Rightarrow> 'n \<Rightarrow> 'n list \<Rightarrow> 'n list \<Rightarrow> error + ('n list \<times> 'n list)" where
  "purge_loop i sz current_root q temp =
     (if i < sz then
        (case q of
           n # n_parent # rest \<Rightarrow>
             purge_loop (i + 2) sz current_root rest
               (if n_parent = current_root then temp @ [n] else temp)
         | _ \<Rightarrow> Inl UndefinedBehaviour)
      else Inr (q, temp))"
  by pat_completeness auto
termination
  by (relation "measure (\<lambda>(i, sz, current_root, q, temp). nat (sz - i))") auto

text \<open>The second loop (lines 239-243 and 266-270) moves the whole temporary queue back.\<close>

fun refill :: "'n list \<Rightarrow> 'n list \<Rightarrow> 'n list" where
  "refill q [] = q"
| "refill q (x # temp) = refill (q @ [x]) temp"

definition purge_queue :: "int \<Rightarrow> 'n \<Rightarrow> 'n list \<Rightarrow> error + 'n list" where
  "purge_queue sz current_root q =
     (case purge_loop 0 sz current_root q [] of
        Inl e \<Rightarrow> Inl e
      | Inr (q', temp) \<Rightarrow> Inr (refill q' temp))"

text \<open>Lines 222-276: both purges, behind the test of \<open>final_purge_run\<close>.\<close>

definition purge_obsolete :: "'n \<Rightarrow> ('n, 'm) search \<Rightarrow> error + ('n, 'm) search" where
  "purge_obsolete current_root s =
     (if final_purge_run s then Inr s
      else
        (case (if size_of_queue_at_start s > 0
               then purge_queue (size_of_queue_at_start s) current_root (persistent_queue_of_nodes s)
               else Inr (persistent_queue_of_nodes s)) of
           Inl e \<Rightarrow> Inl e
         | Inr q \<Rightarrow>
            (case (if length (nodes_added_by_the_helper s) > 0
                   then purge_queue (int (length (nodes_added_by_the_helper s))) current_root
                          (nodes_added_by_the_helper s)
                   else Inr (nodes_added_by_the_helper s)) of
               Inl e \<Rightarrow> Inl e
             | Inr a \<Rightarrow> Inr (s\<lparr>persistent_queue_of_nodes := q,
                                nodes_added_by_the_helper := a\<rparr>))))"

text \<open>Lines 201-218: the reset when a new game has started.\<close>

definition new_game_reset :: "int \<Rightarrow> int \<Rightarrow> ('n, 'm) search \<Rightarrow> ('n, 'm) search" where
  "new_game_reset aux_time aux_threshold s =
     (if New_Game s then
        s\<lparr>AuxEngineTime := aux_time,
          AuxEngineThreshold := aux_threshold,
          Total_number_of_nodes := 0,
          Number_of_nodes_added_by_AuxEngine := 0,
          size_of_queue_at_start := 0,
          persistent_queue_of_nodes := [],
          nodes_added_by_the_helper := [],
          source_of_PVs := [],
          source_of_queued_nodes := [],
          source_of_added_nodes := [],
          New_Game := False\<rparr>
      else s)"

text \<open>
  The branch of \<open>AuxEngineWorker\<close> for a helper that is already running (lines 195-293),
  entered with \<open>auxengine_mutex_\<close> held. \<open>our_index\<close> is the value of \<open>thread_counter\<close>
  read at line 105. Line 280 is the expression statement
  \<^verbatim>\<open>search_stats_->final_purge_run;\<close>, which reads the field and stores nothing, so the
  model has no update for it.
\<close>

definition AuxEngineWorker_resume ::
  "int \<Rightarrow> int \<Rightarrow> 'n \<Rightarrow> ('n, 'm) search \<Rightarrow> error + ('n, 'm) search" where
  "AuxEngineWorker_resume aux_time aux_threshold current_root s =
     (let our_index = thread_counter s in
      case (if our_index = 0
            then purge_obsolete current_root (new_game_reset aux_time aux_threshold s)
            else Inr s) of
        Inl e \<Rightarrow> Inl e
      | Inr s1 \<Rightarrow> Inr (s1\<lparr>auxengine_stopped := auxengine_stopped s1 @ [True],
                           thread_counter := thread_counter s1 + 1\<rparr>))"

subsection \<open>Collaborators and parameters\<close>

text \<open>
  The tree, the board and the move encoding belong to other files (mcts/node.h,
  chess/board.h, chess/position.h); only their interface is used here, so they are fields
  of a record of functions, together with the members of \<open>Search\<close> that stay fixed during
  one search (\<^verbatim>\<open>root_node_\<close>, \<^verbatim>\<open>played_history_\<close>) and the parameters read from
  \<open>params_\<close>. \<open>GetParent\<close> yields \<open>None\<close> for a null pointer; \<open>GetOwnMove n flip\<close> is
  \<^verbatim>\<open>n->GetOwnEdge()->GetMove(flip)\<close>; \<open>ParseMove str black\<close> is
  \<^verbatim>\<open>Move::ParseMove(&m, str, black)\<close> with the move as the result when it returns true;
  \<open>MakePosition p m\<close> is the constructor \<^verbatim>\<open>Position(p, m)\<close>.
\<close>

record ('n, 'm, 'b, 'p) env =
  root_node :: 'n
  IsBlackToMove :: bool
  LastBoard :: 'b
  LastPosition :: 'p
  GetAuxEngineMaxDepth :: int
  GetParent :: "'n \<Rightarrow> 'n option"
  GetOwnMove :: "'n \<Rightarrow> bool \<Rightarrow> 'm"
  ParseMove :: "string \<Rightarrow> bool \<Rightarrow> 'm option"
  GetModernMove :: "'b \<Rightarrow> 'm \<Rightarrow> 'm"
  flipped :: "'b \<Rightarrow> bool"
  MirrorMove :: "'m \<Rightarrow> 'm"
  ApplyMove :: "'b \<Rightarrow> 'm \<Rightarrow> 'b"
  MirrorBoard :: "'b \<Rightarrow> 'b"
  MakePosition :: "'p \<Rightarrow> 'm \<Rightarrow> 'p"
  GetFen :: "'p \<Rightarrow> string"
  as_packed_int :: "'m \<Rightarrow> 16 word"

subsection \<open>Reading a line token by token\<close>

text \<open>
  \<^verbatim>\<open>iss >> pv >> std::ws\<close> extracts the next run of characters that are not white space
  and then skips the white space behind it. The stream is modelled by the list of the tokens
  that are left in it, together with the flag that tells whether white space follows the
  last token of the line.

  As the condition of a loop (lines 388 and 404) the expression is false when no token is
  left, and it is also false at the last token of a line that does not end in white space:
  the extraction of that token reaches the end of the stream and sets \<^verbatim>\<open>eofbit\<close>, and
  \<^verbatim>\<open>std::ws\<close>, which starts with a test of the stream state, then sets \<^verbatim>\<open>failbit\<close>. The
  token is stored in \<^verbatim>\<open>pv\<close>, but the body of the loop is not run for it, and every later
  extraction fails.
\<close>

definition isspace :: "char \<Rightarrow> bool" where
  "isspace c = (c \<in> set [CHR '' '', CHR 0x09, CHR 0x0A, CHR 0x0B, CHR 0x0C, CHR 0x0D])"

fun tokens_from :: "string \<Rightarrow> string \<Rightarrow> string list" where
  "tokens_from cur [] = (if cur = [] then [] else [cur])"
| "tokens_from cur (c # cs) =
     (if isspace c then (if cur = [] then tokens_from [] cs else cur # tokens_from [] cs)
      else tokens_from (cur @ [c]) cs)"

definition tokens :: "string \<Rightarrow> string list" where
  "tokens line = tokens_from [] line"

definition ends_in_space :: "string \<Rightarrow> bool" where
  "ends_in_space line = (line \<noteq> [] \<and> isspace (last line))"

text \<open>
  \<^verbatim>\<open>iss >> depth_reached >> std::ws\<close> (line 398) reads an optional sign and the decimal
  digits that follow, and leaves the rest of the token in the stream. It fails, which ends
  the loop over the line, when there is no digit or when the number does not fit into a
  32-bit \<open>int\<close>. The state of the stream is not tested at line 398: a number that ends
  the line is stored, and the loop ends at its next test, where no token is left.
\<close>

definition isdigit :: "char \<Rightarrow> bool" where
  "isdigit c = (c \<in> set ''0123456789'')"

definition digits_value :: "string \<Rightarrow> int" where
  "digits_value ds = foldl (\<lambda>v c. 10 * v + (int (of_char c) - 48)) 0 ds"

definition read_int :: "string list \<Rightarrow> (int \<times> string list) option" where
  "read_int toks =
     (case toks of
        [] \<Rightarrow> None
      | t # rest \<Rightarrow>
          (let negative = (take 1 t = ''-'');
               body = (if take 1 t = ''-'' \<or> take 1 t = ''+'' then drop 1 t else t);
               ds = takeWhile isdigit body;
               left = dropWhile isdigit body;
               v = (if negative then - digits_value ds else digits_value ds)
           in if ds = [] \<or> v < - 2147483648 \<or> 2147483647 < v then None
              else Some (v, if left = [] then rest else left # rest)))"

subsection \<open>\<open>Search::AuxEncode_and_Enqueue\<close> (lines 352-457)\<close>

text \<open>The local variables of the routine that the loops change.\<close>

record ('m, 'b, 'p) decode =
  flip :: bool
  my_board :: 'b
  my_position :: 'p
  my_moves_from_the_white_side :: "'m list"
  pv_moves :: "16 word list"
  pv_length :: int
  depth_reached :: int

definition max_pv_length :: int where
  "max_pv_length = 99"

text \<open>Lines 413-431: the body of the inner loop for a move that was parsed.\<close>

definition pv_step ::
  "('n, 'm, 'b, 'p) env \<Rightarrow> ('m, 'b, 'p) decode \<Rightarrow> 'm \<Rightarrow> ('m, 'b, 'p) decode" where
  "pv_step e st m =
     (let m1 = GetModernMove e (my_board st) m;
          m2 = (if flipped e (my_board st) then MirrorMove e m1 else m1);
          m3 = GetModernMove e (my_board st) m2;
          board1 = ApplyMove e (my_board st) m;
          m4 = (if flipped e board1 then MirrorMove e m3 else m3)
      in st\<lparr>my_board := MirrorBoard e board1,
             my_position := MakePosition e (my_position st) m3,
             my_moves_from_the_white_side := my_moves_from_the_white_side st @ [m4],
             pv_moves := pv_moves st @ [as_packed_int e m4],
             flip := \<not> flip st,
             pv_length := pv_length st + 1\<rparr>)"

text \<open>
  Lines 404-432: the inner loop. The condition at lines 404-406 first extracts a token and
  skips the white space behind it, and is false when that fails; only then it compares
  \<open>pv_length\<close> with the two bounds. The loop returns the tokens that can still be
  extracted: the token on which it stops is extracted in every case, and nothing is left
  once the stream has failed.
\<close>

fun pv_loop ::
  "('n, 'm, 'b, 'p) env \<Rightarrow> bool \<Rightarrow> string list \<Rightarrow> ('m, 'b, 'p) decode \<Rightarrow>
   ('m, 'b, 'p) decode \<times> string list" where
  "pv_loop e trailing_space [] st = (st, [])"
| "pv_loop e trailing_space (pv # rest) st =
     (if rest = [] \<and> \<not> trailing_space then (st, [])
      else if pv_length st < depth_reached st \<and> pv_length st < max_pv_length then
        (case ParseMove e pv (\<not> flip st) of
           None \<Rightarrow> (st, rest)
         | Some m \<Rightarrow> pv_loop e trailing_space rest (pv_step e st m))
      else (st, rest))"

definition stream_size :: "string list \<Rightarrow> nat" where
  "stream_size toks = length (concat toks) + length toks"

lemma pv_loop_stream_size:
  "pv_loop e trailing_space toks st = (st', toks') \<Longrightarrow> stream_size toks' \<le> stream_size toks"
  by (induction toks arbitrary: st)
     (auto simp: stream_size_def split: if_splits option.splits, fastforce+)

lemma read_int_stream_size:
  "read_int toks = Some (v, toks') \<Longrightarrow> stream_size toks' \<le> stream_size toks"
proof -
  have "length (dropWhile P xs) \<le> length xs" for P and xs :: string
    by (induction xs) auto
  then have "length (dropWhile isdigit (drop k t)) \<le> length t" for k t
    by (metis le_trans length_drop diff_le_self)
  moreover assume "read_int toks = Some (v, toks')"
  ultimately show ?thesis
    by (auto simp: read_int_def stream_size_def Let_def length_dropWhile_le
        split: list.splits if_splits)
qed

text \<open>
  Lines 388-434: the loop over the line. The result is \<open>None\<close> when the routine returns
  at the token \<open>string\<close> (line 394) and the local state at the end of the loop otherwise.
  The loop ends when no token is left, and at the last token of a line that does not end in
  white space, for which the condition at line 388 is false.
\<close>

function decode_loop ::
  "('n, 'm, 'b, 'p) env \<Rightarrow> bool \<Rightarrow> bool \<Rightarrow> string list \<Rightarrow> ('m, 'b, 'p) decode \<Rightarrow>
   ('m, 'b, 'p) decode option" where
  "decode_loop e require_some_depth trailing_space [] st = Some st"
| "decode_loop e require_some_depth trailing_space (pv # rest) st =
     (if rest = [] \<and> \<not> trailing_space then Some st
      else if pv = ''info'' then decode_loop e require_some_depth trailing_space rest st
      else if pv = ''string'' then None
      else if pv = ''depth'' then
        (case read_int rest of
           None \<Rightarrow> Some st
         | Some (v, rest') \<Rightarrow>
             decode_loop e require_some_depth trailing_space rest' (st\<lparr>depth_reached := v\<rparr>))
      else if pv = ''pv'' \<and> (\<not> require_some_depth \<or> depth_reached st > 14) then
        (case pv_loop e trailing_space rest st of
           (st', rest') \<Rightarrow> decode_loop e require_some_depth trailing_space rest' st')
      else decode_loop e require_some_depth trailing_space rest st)"
  by pat_completeness auto
termination
proof (relation "measure (\<lambda>(e, r, trailing_space, toks, st). stream_size toks)", goal_cases)
  case 1
  show ?case by simp
next
  case (2 e r trailing_space pv rest st)
  show ?case by (simp add: stream_size_def)
next
  case (3 e r trailing_space pv rest st x2 v rest')
  then have "read_int rest = Some (v, rest')" by simp
  then show ?case
    using read_int_stream_size [of rest v rest'] by (simp add: stream_size_def)
next
  case (4 e r trailing_space pv rest st st' rest')
  then have "pv_loop e trailing_space rest st = (st', rest')" by simp
  then show ?case
    using pv_loop_stream_size [of e trailing_space rest st st' rest']
    by (simp add: stream_size_def)
next
  case (5 e r trailing_space pv rest st)
  show ?case by (simp add: stream_size_def)
qed

text \<open>
  The routine. The test of the stop flag at lines 356-360 only writes to the log (the
  \<^verbatim>\<open>return\<close> is commented out: ``decided to take the risk and go on''), so the flag does
  not occur in the definition.
\<close>

definition decode_start ::
  "('n, 'm, 'b, 'p) env \<Rightarrow> int \<Rightarrow> 'b \<Rightarrow> 'p \<Rightarrow> 'm list \<Rightarrow> ('m, 'b, 'p) decode" where
  "decode_start e d b p ms =
     \<lparr>flip = (IsBlackToMove e \<noteq> (d mod 2 = 0)),
      my_board = b, my_position = p, my_moves_from_the_white_side = ms,
      pv_moves = [], pv_length = 1, depth_reached = 0\<rparr>"

definition AuxEncode_and_Enqueue ::
  "('n, 'm, 'b, 'p) env \<Rightarrow> string \<Rightarrow> int \<Rightarrow> 'b \<Rightarrow> 'p \<Rightarrow> 'm list \<Rightarrow> int \<Rightarrow> bool \<Rightarrow>
   ('n, 'm) search \<Rightarrow> ('n, 'm) search" where
  "AuxEncode_and_Enqueue e pv_as_string d b p ms source require_some_depth s =
     (case decode_loop e require_some_depth (ends_in_space pv_as_string) (tokens pv_as_string)
             (decode_start e d b p ms) of
        None \<Rightarrow> s
      | Some st \<Rightarrow>
          if length (pv_moves st) > 0 then
            s\<lparr>fast_track_extend_and_evaluate_queue :=
                fast_track_extend_and_evaluate_queue s @ [my_moves_from_the_white_side st],
              source_of_PVs := source_of_PVs s @ [source]\<rparr>
          else s)"

subsection \<open>\<open>Search::DoAuxEngine\<close> (lines 459-689)\<close>

text \<open>
  The stop flag is written by the search, not by this file. A call of \<open>DoAuxEngine\<close>
  reads it before the helper is asked (lines 461, 475, 526 and 560) and once per line that
  the helper sends. The model has one value of the flag for the part before the query, the
  field \<open>stop\<close> of the state on entry, and takes the lines of the helper together with
  the value that the flag has when the line arrives: the input of the loop is a list of
  pairs (line, flag). The draw \<^verbatim>\<open>distribution(generator)\<close> is a parameter as well, and
  the quotient \<^verbatim>\<open>float(1.0f)/(depth)\<close> and the comparison are taken over the reals.
  The distribution is constructed at line 47 as
  \<^verbatim>\<open>std::uniform_real_distribution<float> distribution(1,0)\<close>; which values it yields is
  a matter of the C++ library, and the properties below hold for every value of the draw.
  \<^verbatim>\<open>vector_of_children[index]->running()\<close> is the parameter \<open>running\<close>.

  The local variables that the decoder is called with:
\<close>

record ('m, 'b, 'p) task =
  depth :: int
  board :: 'b
  position :: 'p
  moves :: "'m list"

text \<open>
  Lines 480-482 and 531-535: the two walks from the node to the root. A walk that never
  reaches the root along non-null parents does not return (\<open>None\<close>); at a null parent
  the code dereferences it.
\<close>

partial_function (option) depth_loop ::
  "('n, 'm, 'b, 'p) env \<Rightarrow> 'n \<Rightarrow> int \<Rightarrow> (error + int) option" where
  "depth_loop e n2 d =
     (if n2 = root_node e then Some (Inr d)
      else (case GetParent e n2 of
              None \<Rightarrow> Some (Inl UndefinedBehaviour)
            | Some parent \<Rightarrow> depth_loop e parent (d + 1)))"

partial_function (option) moves_loop ::
  "('n, 'm, 'b, 'p) env \<Rightarrow> 'n \<Rightarrow> bool \<Rightarrow> 'm list \<Rightarrow> 'm list \<Rightarrow>
   (error + 'm list \<times> 'm list) option" where
  "moves_loop e n2 fl my_moves white =
     (if n2 = root_node e then Some (Inr (my_moves, white))
      else (case GetParent e n2 of
              None \<Rightarrow> Some (Inl UndefinedBehaviour)
            | Some parent \<Rightarrow>
                moves_loop e parent (\<not> fl) (my_moves @ [GetOwnMove e n2 fl])
                  (white @ [GetOwnMove e n2 False])))"

text \<open>Lines 547-554: the board and the position of the node.\<close>

fun apply_moves ::
  "('n, 'm, 'b, 'p) env \<Rightarrow> 'm list \<Rightarrow> 'b \<Rightarrow> 'p \<Rightarrow> 'b \<times> 'p" where
  "apply_moves e [] b p = (b, p)"
| "apply_moves e (move # rest) b p =
     (let m = (if flipped e b then MirrorMove e move else move)
      in apply_moves e rest (MirrorBoard e (ApplyMove e b m)) (MakePosition e p m))"

text \<open>
  Lines 490-506: the admission test. The result \<open>True\<close> stands for the \<^verbatim>\<open>return\<close>
  at line 503.
\<close>

definition admission ::
  "('n, 'm, 'b, 'p) env \<Rightarrow> 'n \<Rightarrow> int \<Rightarrow> real \<Rightarrow> ('n, 'm) search \<Rightarrow>
   error + bool \<times> ('n, 'm) search" where
  "admission e n d sample s =
     (if length (persistent_queue_of_nodes s) > 0 then
        (if d > 0 \<and> d > GetAuxEngineMaxDepth e \<and> 1 / real_of_int d < sample then
           (case source_of_queued_nodes s of
              [] \<Rightarrow> Inl UndefinedBehaviour
            | source # sources \<Rightarrow>
                Inr (True, s\<lparr>source_of_queued_nodes := sources @ [source],
                              persistent_queue_of_nodes := persistent_queue_of_nodes s @ [n],
                              notify_one_calls := notify_one_calls s + 1\<rparr>))
         else Inr (False, s))
      else Inr (False, s))"

definition send :: "nat \<Rightarrow> command \<Rightarrow> ('n, 'm) search \<Rightarrow> ('n, 'm) search" where
  "send index c s = s\<lparr>opstreams := opstreams s @ [(index, c)]\<rparr>"

text \<open>Lines 584-653: the loop over the lines of the helper, one round per line.\<close>

record loop_vars =
  prev_line :: string
  token :: string
  stopping :: bool
  second_stopping :: bool

datatype 'a iteration = Break 'a | Next 'a

definition stream_step ::
  "('n, 'm, 'b, 'p) env \<Rightarrow> nat \<Rightarrow> ('m, 'b, 'p) task \<Rightarrow> string \<Rightarrow> loop_vars \<Rightarrow>
   ('n, 'm) search \<Rightarrow> error + (loop_vars \<times> ('n, 'm) search) iteration" where
  "stream_step e index t line v s =
     (let toks = tokens line;
          token1 = (case toks of [] \<Rightarrow> token v | w # _ \<Rightarrow> w);
          token2 = (case drop 1 toks of [] \<Rightarrow> token1 | w # _ \<Rightarrow> w)
      in
      if token1 = ''bestmove'' \<and> token2 \<noteq> ''info'' then Inr (Break (v\<lparr>token := token2\<rparr>, s))
      else
        (let tok = (if token1 = ''bestmove'' then token2 else token1);
             s1 = (if token1 = ''bestmove'' then send index Stop s else s);
             v1 = v\<lparr>token := tok, prev_line := line\<rparr>
         in
         if \<not> stopping v1 then
           (if stop s1 then
              (if index < length (auxengine_stopped s1) then
                 (if \<not> auxengine_stopped s1 ! index
                  then Inr (Next (v1\<lparr>stopping := True\<rparr>,
                         (send index Stop s1)
                           \<lparr>auxengine_stopped := (auxengine_stopped s1)[index := True]\<rparr>))
                  else Inr (Next (v1\<lparr>stopping := True\<rparr>, s1)))
               else Inl UndefinedBehaviour)
            else if tok = ''info'' then
              (case source_of_queued_nodes s1 of
                 [] \<Rightarrow> Inl UndefinedBehaviour
               | source # _ \<Rightarrow>
                   Inr (Next (v1, AuxEncode_and_Enqueue e line (depth t) (board t) (position t)
                                    (moves t) source True s1)))
            else Inr (Next (v1, s1)))
         else if \<not> second_stopping v1 then
           Inr (Next (v1\<lparr>second_stopping := True\<rparr>, send index Stop s1))
         else Inr (Next (v1, s1))))"

fun stream_loop ::
  "('n, 'm, 'b, 'p) env \<Rightarrow> nat \<Rightarrow> ('m, 'b, 'p) task \<Rightarrow> (string \<times> bool) list \<Rightarrow>
   loop_vars \<Rightarrow> ('n, 'm) search \<Rightarrow> error + loop_vars \<times> ('n, 'm) search" where
  "stream_loop e index t [] v s = Inr (v, s)"
| "stream_loop e index t ((line, stop_now) # rest) v s =
     (case stream_step e index t line v (s\<lparr>stop := stop_now\<rparr>) of
        Inl err \<Rightarrow> Inl err
      | Inr (Break (v', s')) \<Rightarrow> Inr (v', s')
      | Inr (Next (v', s')) \<Rightarrow> stream_loop e index t rest v' s')"

text \<open>Lines 584-590: the local variables before the first line is read.\<close>

definition loop_start :: loop_vars where
  "loop_start = \<lparr>prev_line = [], token = [], stopping = False, second_stopping = False\<rparr>"

text \<open>Lines 654-687: after the loop.\<close>

definition finish_query ::
  "('n, 'm, 'b, 'p) env \<Rightarrow> nat \<Rightarrow> ('m, 'b, 'p) task \<Rightarrow> bool \<Rightarrow> loop_vars \<Rightarrow>
   ('n, 'm) search \<Rightarrow> error + ('n, 'm) search" where
  "finish_query e index t running v s =
     (if stopping v then Inr s
      else if index < length (auxengine_stopped s) then
        (let s1 = s\<lparr>auxengine_stopped := (auxengine_stopped s)[index := True]\<rparr>
         in if prev_line v = [] then Inr s1
            else if \<not> running then Inl AuxEngineDied
            else
              (case source_of_queued_nodes s1 of
                 [] \<Rightarrow> Inl UndefinedBehaviour
               | source # sources \<Rightarrow>
                   Inr (AuxEncode_and_Enqueue e (prev_line v) (depth t) (board t) (position t)
                          (moves t) source False
                          (s1\<lparr>auxengine_num_evals := auxengine_num_evals s1 + 1,
                              source_of_queued_nodes := sources\<rparr>))))
      else Inl UndefinedBehaviour)"

text \<open>Lines 565-582: the position and the search command are written to the helper.\<close>

definition start_query ::
  "('n, 'm, 'b, 'p) env \<Rightarrow> nat \<Rightarrow> ('m, 'b, 'p) task \<Rightarrow> ('n, 'm) search \<Rightarrow>
   error + ('n, 'm) search" where
  "start_query e index t s =
     (let s1 = send index (Position (''position fen '' @ GetFen e (position t))) s;
          s2 = send index (if index = 0 then GoInfinite else GoMovetime (AuxEngineTime s1)) s1
      in if index < length (auxengine_stopped s2)
         then Inr (s2\<lparr>auxengine_stopped := (auxengine_stopped s2)[index := False]\<rparr>)
         else Inl UndefinedBehaviour)"

definition query ::
  "('n, 'm, 'b, 'p) env \<Rightarrow> nat \<Rightarrow> ('m, 'b, 'p) task \<Rightarrow> (string \<times> bool) list \<Rightarrow> bool \<Rightarrow>
   ('n, 'm) search \<Rightarrow> error + ('n, 'm) search" where
  "query e index t helper_lines running s =
     (case start_query e index t s of
        Inl err \<Rightarrow> Inl err
      | Inr s1 \<Rightarrow>
          (case stream_loop e index t helper_lines loop_start s1 of
             Inl err \<Rightarrow> Inl err
           | Inr (v, s2) \<Rightarrow> finish_query e index t running v s2))"

text \<open>Lines 515-687: everything after the admission test.\<close>

definition analyse ::
  "('n, 'm, 'b, 'p) env \<Rightarrow> 'n \<Rightarrow> nat \<Rightarrow> int \<Rightarrow> (string \<times> bool) list \<Rightarrow> bool \<Rightarrow>
   ('n, 'm) search \<Rightarrow> (error + ('n, 'm) search) option" where
  "analyse e n index d helper_lines running s =
     (case moves_loop e n (IsBlackToMove e \<noteq> (d mod 2 = 0)) [] [] of
        None \<Rightarrow> None
      | Some (Inl err) \<Rightarrow> Some (Inl err)
      | Some (Inr (my_moves, white)) \<Rightarrow>
          (case apply_moves e (rev my_moves) (LastBoard e) (LastPosition e) of
             (b, p) \<Rightarrow>
               Some (query e index \<lparr>depth = d, board = b, position = p, moves = rev white\<rparr>
                       helper_lines running s)))"

definition DoAuxEngine ::
  "('n, 'm, 'b, 'p) env \<Rightarrow> 'n \<Rightarrow> nat \<Rightarrow> real \<Rightarrow> (string \<times> bool) list \<Rightarrow> bool \<Rightarrow>
   ('n, 'm) search \<Rightarrow> (error + ('n, 'm) search) option" where
  "DoAuxEngine e n index sample helper_lines running s =
     (if stop s then Some (Inr s)
      else
        (case depth_loop e n 0 of
           None \<Rightarrow> None
         | Some (Inl err) \<Rightarrow> Some (Inl err)
         | Some (Inr d) \<Rightarrow>
             (case admission e n d sample s of
                Inl err \<Rightarrow> Some (Inl err)
              | Inr (True, s') \<Rightarrow> Some (Inr s')
              | Inr (False, s') \<Rightarrow> analyse e n index d helper_lines running s')))"

subsection \<open>Layout of the queues at the start of a move\<close>

text \<open>
  Line 220: ``the even elements are the actual nodes, the odd elements is root if the
  preceding even element is still a relevant node''. \<open>lockstep\<close> lays a list of pairs
  (node, marker) out in that way.
\<close>

definition lockstep :: "('n \<times> 'n) list \<Rightarrow> 'n list" where
  "lockstep pairs = concat (map (\<lambda>(n, n_parent). [n, n_parent]) pairs)"

subsection \<open>Notions used in the statements about the decoder\<close>

text \<open>
  The number of leading tokens that \<open>ParseMove\<close> accepts, with the side flag alternating
  as in the inner loop, and the relation between two local states of the decoder that says
  that the second one has some more moves, as many in \<open>my_moves_from_the_white_side\<close>
  as in \<open>pv_moves\<close>.
\<close>

fun parseable_prefix :: "('n, 'm, 'b, 'p) env \<Rightarrow> bool \<Rightarrow> string list \<Rightarrow> nat" where
  "parseable_prefix e black [] = 0"
| "parseable_prefix e black (t # ts) =
     (case ParseMove e t black of
        None \<Rightarrow> 0
      | Some m \<Rightarrow> Suc (parseable_prefix e (\<not> black) ts))"

definition extends :: "('m, 'b, 'p) decode \<Rightarrow> ('m, 'b, 'p) decode \<Rightarrow> bool" where
  "extends st st' \<longleftrightarrow>
     (\<exists>xs. my_moves_from_the_white_side st' = my_moves_from_the_white_side st @ xs \<and>
           length (pv_moves st') = length (pv_moves st) + length xs)"

text \<open>
  The tokens at the end of a line for which the condition of a loop can be true: all of
  them when the line ends in white space, and all but the last one otherwise.
\<close>

definition loop_tokens :: "bool \<Rightarrow> string list \<Rightarrow> string list" where
  "loop_tokens trailing_space toks = (if trailing_space then toks else butlast toks)"

subsection \<open>Notions used in the statements about admission\<close>



subsection \<open>Notions used in the statements about the line protocol\<close>

text \<open>
  A line terminates the loop when its first token is \<open>bestmove\<close> and the second one, if
  there is one, is not \<open>info\<close>; the malformed line \<open>bestmove info\<close> does not. The loop
  processes the lines before the first terminating one. \<open>stops_sent\<close> counts the
  \<open>stop\<close> commands written to one helper.
\<close>

definition terminating :: "string \<Rightarrow> bool" where
  "terminating line =
     (case tokens line of
        [] \<Rightarrow> False
      | t1 # rest \<Rightarrow> t1 = ''bestmove'' \<and> (case rest of [] \<Rightarrow> True | t2 # _ \<Rightarrow> t2 \<noteq> ''info''))"

definition bestmove_info :: "string \<Rightarrow> bool" where
  "bestmove_info line =
     (case tokens line of
        t1 # t2 # _ \<Rightarrow> t1 = ''bestmove'' \<and> t2 = ''info''
      | _ \<Rightarrow> False)"

definition processed :: "(string \<times> bool) list \<Rightarrow> (string \<times> bool) list" where
  "processed helper_lines = takeWhile (\<lambda>(line, stop_now). \<not> terminating line) helper_lines"

definition stops_sent :: "nat \<Rightarrow> ('n, 'm) search \<Rightarrow> nat" where
  "stops_sent index s = length (filter (\<lambda>c. c = (index, Stop)) (opstreams s))"

definition bestmove_info_count :: "(string \<times> bool) list \<Rightarrow> nat" where
  "bestmove_info_count ls = length (filter (\<lambda>(line, stop_now). bestmove_info line) ls)"

text \<open>The processed lines from the first one at which the stop flag is set.\<close>

definition since_stop :: "(string \<times> bool) list \<Rightarrow> (string \<times> bool) list" where
  "since_stop helper_lines =
     dropWhile (\<lambda>(line, stop_now). \<not> stop_now) (processed helper_lines)"

subsection \<open>Concrete data for the examples\<close>

text \<open>A state with empty queues, nodes numbered by naturals and moves written as text.\<close>

definition search0 :: "(nat, string) search" where
  "search0 =
     \<lparr>stop = False, persistent_queue_of_nodes = [], source_of_queued_nodes = [],
      nodes_added_by_the_helper = [], source_of_added_nodes = [],
      fast_track_extend_and_evaluate_queue = [], source_of_PVs = [],
      AuxEngineMove = (\<lambda>n. 0), auxengine_stopped = [], final_purge_run = False,
      New_Game = False, size_of_queue_at_start = 0, thread_counter = 0, AuxEngineTime = 0,
      AuxEngineThreshold = 0, Total_number_of_nodes = 0,
      Number_of_nodes_added_by_AuxEngine = 0, auxengine_num_evals = 0,
      notify_one_calls = 0, opstreams = []\<rparr>"

text \<open>
  Collaborators for the examples: a move is its text, \<open>ParseMove\<close> accepts the tokens of
  the form file, rank, file, rank, a board is its \<open>flipped\<close> bit, a position is the list of
  the moves that led to it, and node \<open>k\<close> has the parent \<open>k - 1\<close>, with node 10 as the
  root. The maximum depth for admission is 2.
\<close>

definition is_coordinate_move :: "string \<Rightarrow> bool" where
  "is_coordinate_move t =
     (case t of
        [a, b, c, d] \<Rightarrow>
          a \<in> set ''abcdefgh'' \<and> b \<in> set ''12345678'' \<and>
          c \<in> set ''abcdefgh'' \<and> d \<in> set ''12345678''
      | _ \<Rightarrow> False)"

definition env0 :: "(nat, string, bool, string list) env" where
  "env0 =
     \<lparr>root_node = 10, IsBlackToMove = False, LastBoard = False, LastPosition = [],
      GetAuxEngineMaxDepth = 2,
      GetParent = (\<lambda>n. if n = 0 then None else Some (n - 1)),
      GetOwnMove = (\<lambda>n fl. ''e2e4''),
      ParseMove = (\<lambda>t black. if is_coordinate_move t then Some t else None),
      GetModernMove = (\<lambda>b m. m), flipped = (\<lambda>b. b), MirrorMove = (\<lambda>m. m),
      ApplyMove = (\<lambda>b m. b), MirrorBoard = Not, MakePosition = (\<lambda>p m. p @ [m]),
      GetFen = (\<lambda>p. concat p), as_packed_int = (\<lambda>m. 0)\<rparr>"

definition task0 :: "(string, bool, string list) task" where
  "task0 = \<lparr>depth = 0, board = False, position = [], moves = []\<rparr>"

text \<open>
  A line of a helper at depth 10 with a PV of 30 moves; and a line at depth 15 with a PV
  of 15 moves, together with the moves that the decoder takes from it, the first 14.
\<close>

definition long_line :: string where
  "long_line =
     ''info depth 10 pv e2e4 e7e5 e2e4 e7e5 e2e4 e7e5 e2e4 e7e5 e2e4 e7e5 e2e4 e7e5 e2e4 e7e5 e2e4 e7e5 e2e4 e7e5 e2e4 e7e5 e2e4 e7e5 e2e4 e7e5 e2e4 e7e5 e2e4 e7e5 e2e4 e7e5''"

definition long_line_pv :: "string list" where
  "long_line_pv =
     [''e2e4'', ''e7e5'', ''e2e4'', ''e7e5'', ''e2e4'', ''e7e5'', ''e2e4'', ''e7e5'',
      ''e2e4'', ''e7e5'', ''e2e4'', ''e7e5'', ''e2e4'', ''e7e5'', ''e2e4'', ''e7e5'',
      ''e2e4'', ''e7e5'', ''e2e4'', ''e7e5'', ''e2e4'', ''e7e5'', ''e2e4'', ''e7e5'',
      ''e2e4'', ''e7e5'', ''e2e4'', ''e7e5'', ''e2e4'', ''e7e5'']"

definition deep_line :: string where
  "deep_line =
     ''info depth 15 pv e2e4 e7e5 e2e4 e7e5 e2e4 e7e5 e2e4 e7e5 e2e4 e7e5 e2e4 e7e5 e2e4 e7e5 g1f3''"

definition deep_line_moves :: "string list" where
  "deep_line_moves =
     [''e2e4'', ''e7e5'', ''e2e4'', ''e7e5'', ''e2e4'', ''e7e5'', ''e2e4'', ''e7e5'',
      ''e2e4'', ''e7e5'', ''e2e4'', ''e7e5'', ''e2e4'', ''e7e5'']"

section \<open>Properties\<close>


lemmas model_defs = DoAuxEngine_def admission_def analyse_def query_def start_query_def
  finish_query_def stream_step_def send_def loop_start_def AuxEncode_and_Enqueue_def decode_start_def
  pv_step_def max_pv_length_def tokens_def ends_in_space_def isspace_def read_int_def isdigit_def
  digits_value_def Let_def

lemmas example_defs = env0_def search0_def task0_def is_coordinate_move_def

lemmas loop_defs = stream_step_def send_def AuxEncode_and_Enqueue_def decode_start_def
  pv_step_def max_pv_length_def tokens_def ends_in_space_def isspace_def read_int_def isdigit_def
  digits_value_def Let_def loop_start_def start_query_def

subsection \<open>The purge\<close>

lemma refill_append: "refill q temp = q @ temp"
  by (induction temp arbitrary: q) simp_all

lemma length_lockstep: "length (lockstep pairs) = 2 * length pairs"
  by (induction pairs) (auto simp: lockstep_def)

lemma purge_loop_lockstep:
  "sz = i + 2 * int (length pairs) \<Longrightarrow>
   purge_loop i sz current_root (lockstep pairs @ later) temp =
     Inr (later, temp @ map fst (filter (\<lambda>(n, n_parent). n_parent = current_root) pairs))"
proof (induction pairs arbitrary: i temp)
  case Nil
  then show ?case by (simp add: lockstep_def)
next
  case (Cons a pairs)
  obtain n p where a: "a = (n, p)" by (cases a)
  have lt: "i < sz" using Cons.prems by simp
  have step: "sz = (i + 2) + 2 * int (length pairs)" using Cons.prems by simp
  have ls: "lockstep (a # pairs) @ later = n # p # (lockstep pairs @ later)"
    by (simp add: lockstep_def a)
  have "purge_loop i sz current_root (lockstep (a # pairs) @ later) temp =
        purge_loop (i + 2) sz current_root (lockstep pairs @ later)
          (if p = current_root then temp @ [n] else temp)"
    unfolding ls using lt by (subst purge_loop.simps) simp
  then show ?case
    using Cons.IH [OF step] by (simp add: a)
qed

lemma purge_queue_lockstep:
  "purge_queue (2 * int (length pairs)) current_root (lockstep pairs) =
     Inr (map fst (filter (\<lambda>(n, n_parent). n_parent = current_root) pairs))"
  using purge_loop_lockstep [of "2 * int (length pairs)" 0 pairs current_root "[]" "[]"]
  by (simp add: purge_queue_def refill_append)

text \<open>
  C1. Thread zero resumes on a later move (no new game, purge not yet marked as run) with a
  Work Queue that consists of lockstep pairs (node, parent marker), all of them counted in
  \<open>size_of_queue_at_start\<close>. Then the purge returns, and the Work Queue holds exactly the
  nodes whose marker equals the current root, in their original order; every other node
  is dropped. The queue of nodes added by the helper, laid out in the same way, is
  purged in the same way.
\<close>

theorem purge_keeps_children_of_root:
  assumes "thread_counter s = 0" and "\<not> New_Game s" and "\<not> final_purge_run s"
    and "persistent_queue_of_nodes s = lockstep pairs"
    and "size_of_queue_at_start s = 2 * int (length pairs)"
    and "nodes_added_by_the_helper s = lockstep added"
  shows "AuxEngineWorker_resume aux_time aux_threshold current_root s =
     Inr (s\<lparr>persistent_queue_of_nodes :=
              map fst (filter (\<lambda>(n, n_parent). n_parent = current_root) pairs),
            nodes_added_by_the_helper :=
              map fst (filter (\<lambda>(n, n_parent). n_parent = current_root) added),
            auxengine_stopped := auxengine_stopped s @ [True],
            thread_counter := 1\<rparr>)"
proof -
  have q: "(if size_of_queue_at_start s > 0
            then purge_queue (size_of_queue_at_start s) current_root (persistent_queue_of_nodes s)
            else Inr (persistent_queue_of_nodes s)) =
           Inr (map fst (filter (\<lambda>(n, n_parent). n_parent = current_root) pairs))"
    using assms(4,5) purge_queue_lockstep [of pairs current_root]
    by (cases pairs) (simp_all add: lockstep_def)
  have a: "(if length (nodes_added_by_the_helper s) > 0
            then purge_queue (int (length (nodes_added_by_the_helper s))) current_root
                   (nodes_added_by_the_helper s)
            else Inr (nodes_added_by_the_helper s)) =
           Inr (map fst (filter (\<lambda>(n, n_parent). n_parent = current_root) added))"
    using assms(6) purge_queue_lockstep [of added current_root]
    by (cases added) (simp_all add: length_lockstep, simp_all add: lockstep_def)
  have r: "new_game_reset aux_time aux_threshold s = s"
    using assms(2) by (simp add: new_game_reset_def)
  have p: "purge_obsolete current_root s =
     Inr (s\<lparr>persistent_queue_of_nodes :=
              map fst (filter (\<lambda>(n, n_parent). n_parent = current_root) pairs),
            nodes_added_by_the_helper :=
              map fst (filter (\<lambda>(n, n_parent). n_parent = current_root) added)\<rparr>)"
    unfolding purge_obsolete_def q a using assms(3) by simp
  show ?thesis
    unfolding AuxEngineWorker_resume_def Let_def r p using assms(1) by simp
qed

text \<open>
  The example of the specification: nodes 1, 2, 3 stand for A, B, C and 10, 20 for root1,
  root2. With root 10 the queue [(1,10),(2,20),(3,10)] is purged to [1, 3].
\<close>

theorem purge_keeps_children_of_root_witness:
  "map_sum id persistent_queue_of_nodes
     (AuxEngineWorker_resume 50 3 10
        (search0\<lparr>persistent_queue_of_nodes := [1, 10, 2, 20, 3, 10],
                 size_of_queue_at_start := 6\<rparr>)) = Inr [1, 3]"
  using purge_keeps_children_of_root
    [of "search0\<lparr>persistent_queue_of_nodes := [1, 10, 2, 20, 3, 10],
                  size_of_queue_at_start := 6\<rparr>"
        "[(1, 10), (2, 20), (3, 10)]" "[]" 50 3 10]
  by (simp add: search0_def lockstep_def)

text \<open>
  C6 (what the code does). The purge is meant to run once per move, with
  \<open>final_purge_run\<close> as the latch (line 280: ``Inform other threads that they should not
  purge''). The statement at line 280 stores nothing, so the latch is as it was after the
  purge has run. Here thread zero purges the queue [(1,10),(2,20)] to [1] and leaves
  \<open>final_purge_run\<close> false; a thread that then reads \<open>thread_counter = 0\<close> in the same
  move (the first one has left and decremented the counter at line 347) purges again,
  pops node 1 as a node and then reads the front of an empty queue.
\<close>

theorem purge_leaves_latch_unset:
  "(case AuxEngineWorker_resume 50 3 10
           (search0\<lparr>persistent_queue_of_nodes := [1, 10, 2, 20],
                    size_of_queue_at_start := 4\<rparr>) of
      Inl e \<Rightarrow> False
    | Inr s1 \<Rightarrow>
        final_purge_run s1 = False \<and> persistent_queue_of_nodes s1 = [1] \<and>
        AuxEngineWorker_resume 50 3 10 (s1\<lparr>thread_counter := 0\<rparr>) =
          Inl UndefinedBehaviour)"
  by (simp add: AuxEngineWorker_resume_def purge_obsolete_def new_game_reset_def
      purge_queue_def search0_def)

subsection \<open>Enqueueing\<close>

text \<open>
  C9. \<open>AuxMaybeEnqueueNode\<close> with the stop flag set returns the state as it is: the
  marker of the node, the Work Queue and the queue of source tags are unchanged and no
  worker is notified. With the flag clear it sets the marker of the node to the magic
  value for ``pending'' (0xfffe) and leaves the other markers alone, appends the node to the
  Work Queue and the source tag to the queue of tags, and calls \<open>notify_one\<close> once,
  which wakes at most one waiting worker.
\<close>

theorem enqueue_unless_stopped:
  "(stop s \<longrightarrow> AuxMaybeEnqueueNode n source s = s) \<and>
   (\<not> stop s \<longrightarrow>
      AuxEngineMove (AuxMaybeEnqueueNode n source s) n = 0xfffe \<and>
      (\<forall>k. k \<noteq> n \<longrightarrow>
         AuxEngineMove (AuxMaybeEnqueueNode n source s) k = AuxEngineMove s k) \<and>
      persistent_queue_of_nodes (AuxMaybeEnqueueNode n source s) =
        persistent_queue_of_nodes s @ [n] \<and>
      source_of_queued_nodes (AuxMaybeEnqueueNode n source s) =
        source_of_queued_nodes s @ [source] \<and>
      notify_one_calls (AuxMaybeEnqueueNode n source s) = notify_one_calls s + 1 \<and>
      AuxMaybeEnqueueNode n source s =
        s\<lparr>AuxEngineMove := (AuxEngineMove s)(n := 0xfffe),
          persistent_queue_of_nodes := persistent_queue_of_nodes s @ [n],
          source_of_queued_nodes := source_of_queued_nodes s @ [source],
          notify_one_calls := notify_one_calls s + 1\<rparr>)"
  by (simp add: AuxMaybeEnqueueNode_def)

text \<open>
  Both cases on concrete states: with the flag set nothing happens to a queue that holds
  node 4; with the flag clear node 7 with tag 2 goes behind node 4.
\<close>

theorem enqueue_unless_stopped_witness:
  "AuxMaybeEnqueueNode 7 2
       (search0\<lparr>stop := True, persistent_queue_of_nodes := [4],
                source_of_queued_nodes := [1]\<rparr>) =
     search0\<lparr>stop := True, persistent_queue_of_nodes := [4],
             source_of_queued_nodes := [1]\<rparr> \<and>
   persistent_queue_of_nodes
     (AuxMaybeEnqueueNode 7 2
        (search0\<lparr>persistent_queue_of_nodes := [4], source_of_queued_nodes := [1]\<rparr>)) =
     [4, 7] \<and>
   source_of_queued_nodes
     (AuxMaybeEnqueueNode 7 2
        (search0\<lparr>persistent_queue_of_nodes := [4], source_of_queued_nodes := [1]\<rparr>)) =
     [1, 2] \<and>
   AuxEngineMove
     (AuxMaybeEnqueueNode 7 2
        (search0\<lparr>persistent_queue_of_nodes := [4], source_of_queued_nodes := [1]\<rparr>)) 7 =
     0xfffe \<and>
   notify_one_calls
     (AuxMaybeEnqueueNode 7 2
        (search0\<lparr>persistent_queue_of_nodes := [4], source_of_queued_nodes := [1]\<rparr>)) = 1"
  using enqueue_unless_stopped
    [of "search0\<lparr>stop := True, persistent_queue_of_nodes := [4],
                  source_of_queued_nodes := [1]\<rparr>" 7 2]
    enqueue_unless_stopped
    [of "search0\<lparr>persistent_queue_of_nodes := [4], source_of_queued_nodes := [1]\<rparr>" 7 2]
  by (simp add: search0_def)

subsection \<open>Admission\<close>




text \<open>When the test is passed and the walks reach the root, the helper is asked.\<close>

lemma DoAuxEngine_reaches_query:
  assumes "\<not> stop s" and "depth_loop e n 0 = Some (Inr d)"
    and "admission e n d sample s = Inr (False, s)"
    and "moves_loop e n (IsBlackToMove e \<noteq> (d mod 2 = 0)) [] [] = Some (Inr (my_moves, white))"
    and "apply_moves e (rev my_moves) (LastBoard e) (LastPosition e) = (b, p)"
  shows "DoAuxEngine e n index sample helper_lines running s =
     Some (query e index \<lparr>depth = d, board = b, position = p, moves = rev white\<rparr>
             helper_lines running s)"
  using assms by (simp add: DoAuxEngine_def analyse_def)

subsection \<open>The decoder and the stop flag\<close>

text \<open>
  C5 as stated fails: called with the stop flag set, the decoder publishes the line as
  usual.
\<close>

theorem decoder_publishes_while_stopped_counterexample:
  "stop (search0\<lparr>stop := True\<rparr>) \<and>
   fast_track_extend_and_evaluate_queue
     (AuxEncode_and_Enqueue env0 ''info depth 3 pv e2e4 e7e5 g1f3'' 0 False [] [] 3 False
        (search0\<lparr>stop := True\<rparr>)) = [[''e2e4'', ''e7e5'']]"
  by (simp add: model_defs example_defs)

text \<open>
  C5, amended. The decoder does not discard anything on account of the stop flag: called
  with the flag set it publishes exactly what it publishes with the flag clear. (The
  results of a stopped query are dropped by \<open>DoAuxEngine\<close>, which does not call the
  decoder any more once it has seen the flag itself; see C7.)
\<close>

theorem decoder_ignores_stop:
  "AuxEncode_and_Enqueue e line d b p ms source require_some_depth (s\<lparr>stop := True\<rparr>) =
     (AuxEncode_and_Enqueue e line d b p ms source require_some_depth (s\<lparr>stop := False\<rparr>))
       \<lparr>stop := True\<rparr>"
  by (simp add: AuxEncode_and_Enqueue_def split: option.split)

subsection \<open>The decoder: depth gate and truncation\<close>

lemma extends_refl: "extends st st"
  by (simp add: extends_def)

lemma extends_trans: "extends a b \<Longrightarrow> extends b c \<Longrightarrow> extends a c"
  by (auto simp: extends_def)

lemma extends_pv_step: "extends st (pv_step e st m)"
  by (simp add: extends_def pv_step_def Let_def)

lemma read_int_whole:
  "read_int [dtok] = Some (D, []) \<Longrightarrow> read_int (dtok # post) = Some (D, post)"
  by (auto simp: read_int_def Let_def split: if_splits)

lemma decode_loop_plain:
  "''string'' \<notin> set ts \<Longrightarrow> ''depth'' \<notin> set ts \<Longrightarrow> ''pv'' \<notin> set ts \<Longrightarrow>
   decode_loop e r sp ts st = Some st"
  by (induction ts) auto

lemma decode_loop_skip_all:
  "''string'' \<notin> set pre \<Longrightarrow> ''depth'' \<notin> set pre \<Longrightarrow> ''pv'' \<notin> set pre \<Longrightarrow> ts \<noteq> [] \<Longrightarrow>
   decode_loop e r sp (pre @ ts) st = decode_loop e r sp ts st"
  by (induction pre) auto

lemma decode_loop_gate_closed_skip:
  "depth_reached st \<le> 14 \<Longrightarrow> ''string'' \<notin> set pre \<Longrightarrow> ''depth'' \<notin> set pre \<Longrightarrow> ts \<noteq> [] \<Longrightarrow>
   decode_loop e True sp (pre @ ts) st = decode_loop e True sp ts st"
  by (induction pre) auto

lemma decode_loop_gate_closed_prefix:
  "depth_reached st \<le> 14 \<Longrightarrow> ''depth'' \<notin> set pre \<Longrightarrow> ts \<noteq> [] \<Longrightarrow>
   decode_loop e True sp (pre @ ts) st = None \<or>
   decode_loop e True sp (pre @ ts) st = decode_loop e True sp ts st"
  by (induction pre) auto

lemma decode_loop_gate_closed:
  "depth_reached st \<le> 14 \<Longrightarrow> ''depth'' \<notin> set ts \<Longrightarrow>
   decode_loop e True sp ts st = None \<or> decode_loop e True sp ts st = Some st"
  by (induction ts) auto

lemma pv_loop_invariant:
  "pv_loop e sp ts st = (st', ts') \<Longrightarrow>
   extends st st' \<and> set ts' \<subseteq> set ts \<and> depth_reached st' = depth_reached st"
proof (induction ts arbitrary: st)
  case Nil
  then show ?case by (simp add: extends_refl)
next
  case (Cons t ts)
  show ?case
  proof (cases "ts = [] \<and> \<not> sp")
    case True
    with Cons.prems show ?thesis by (auto simp: extends_refl)
  next
    case reach: False
    show ?thesis
    proof (cases "pv_length st < depth_reached st \<and> pv_length st < max_pv_length")
      case False
      with reach Cons.prems show ?thesis by (auto simp: extends_refl)
    next
      case True
      show ?thesis
      proof (cases "ParseMove e t (\<not> flip st)")
        case None
        with reach True Cons.prems show ?thesis by (auto simp: extends_refl)
      next
        case (Some m)
        with reach True Cons.prems have "pv_loop e sp ts (pv_step e st m) = (st', ts')" by auto
        from Cons.IH [OF this] have
          "extends (pv_step e st m) st'" "set ts' \<subseteq> set ts"
          "depth_reached st' = depth_reached (pv_step e st m)" by simp_all
        then show ?thesis
          using extends_trans [OF extends_pv_step] by (auto simp: pv_step_def Let_def)
      qed
    qed
  qed
qed

lemma decode_loop_extends:
  "''string'' \<notin> set ts \<Longrightarrow> ''depth'' \<notin> set ts \<Longrightarrow>
   \<exists>st'. decode_loop e r sp ts st = Some st' \<and> extends st st'"
proof (induction e r sp ts st rule: decode_loop.induct)
  case (1 e r sp st)
  then show ?case by (simp add: extends_refl)
next
  case (2 e r sp pv rest st)
  show ?case
  proof (cases "rest = [] \<and> \<not> sp")
    case True
    then show ?thesis by (auto simp: extends_refl)
  next
    case reach: False
    show ?thesis
    proof (cases "pv = ''pv'' \<and> (\<not> r \<or> depth_reached st > 14)")
      case True
      obtain st' rest' where pl: "pv_loop e sp rest st = (st', rest')"
        by (cases "pv_loop e sp rest st")
      from pv_loop_invariant [OF pl] have inv: "extends st st'" "set rest' \<subseteq> set rest"
        by simp_all
      have "\<exists>st''. decode_loop e r sp rest' st' = Some st'' \<and> extends st' st''"
        using "2.IH"(3) [of st' rest'] reach True pl inv "2.prems" by auto
      then show ?thesis
        using reach True pl inv extends_trans by fastforce
    next
      case False
      then show ?thesis
        using reach "2.IH"(1,4) "2.prems" by auto
    qed
  qed
qed

lemma loop_tokens_Cons:
  "\<not> (ts = [] \<and> \<not> sp) \<Longrightarrow> loop_tokens sp (t # ts) = t # loop_tokens sp ts"
  by (simp add: loop_tokens_def)

lemma pv_loop_count:
  "pv_loop e sp ts st = (st', ts') \<Longrightarrow>
   length (pv_moves st') =
     length (pv_moves st) +
     min (parseable_prefix e (\<not> flip st) (loop_tokens sp ts))
         (nat (min (depth_reached st) max_pv_length - pv_length st))"
proof (induction ts arbitrary: st)
  case Nil
  then show ?case by (simp add: loop_tokens_def)
next
  case (Cons t ts)
  show ?case
  proof (cases "ts = [] \<and> \<not> sp")
    case True
    with Cons.prems show ?thesis by (auto simp: loop_tokens_def)
  next
    case reach: False
    note lt = loop_tokens_Cons [OF reach, of t]
    show ?thesis
    proof (cases "pv_length st < depth_reached st \<and> pv_length st < max_pv_length")
      case False
      then have "nat (min (depth_reached st) max_pv_length - pv_length st) = 0" by auto
      with reach False Cons.prems show ?thesis by auto
    next
      case True
      show ?thesis
      proof (cases "ParseMove e t (\<not> flip st)")
        case None
        with reach True Cons.prems lt show ?thesis by auto
      next
        case (Some m)
        with reach True Cons.prems have "pv_loop e sp ts (pv_step e st m) = (st', ts')" by auto
        from Cons.IH [OF this] have
          "length (pv_moves st') = length (pv_moves (pv_step e st m)) +
             min (parseable_prefix e (\<not> flip (pv_step e st m)) (loop_tokens sp ts))
               (nat (min (depth_reached (pv_step e st m)) max_pv_length
                      - pv_length (pv_step e st m)))" .
        moreover have "flip (pv_step e st m) = (\<not> flip st)"
          "depth_reached (pv_step e st m) = depth_reached st"
          "pv_length (pv_step e st m) = pv_length st + 1"
          "length (pv_moves (pv_step e st m)) = length (pv_moves st) + 1"
          by (simp_all add: pv_step_def Let_def)
        moreover have "nat (min (depth_reached st) max_pv_length - pv_length st) =
           Suc (nat (min (depth_reached st) max_pv_length - (pv_length st + 1)))"
          using True by auto
        ultimately show ?thesis using Some lt by simp
      qed
    qed
  qed
qed

lemma decode_start_simps:
  "flip (decode_start e d b p ms) = (IsBlackToMove e \<noteq> (d mod 2 = 0))"
  "my_moves_from_the_white_side (decode_start e d b p ms) = ms"
  "pv_moves (decode_start e d b p ms) = []"
  "pv_length (decode_start e d b p ms) = 1"
  "depth_reached (decode_start e d b p ms) = 0"
  by (simp_all add: decode_start_def)

lemma decode_loop_depth:
  "read_int [dtok] = Some (D, []) \<Longrightarrow>
   decode_loop e r sp (''depth'' # dtok # post) st =
     decode_loop e r sp post (st\<lparr>depth_reached := D\<rparr>)"
  using read_int_whole [of dtok D post] by simp

text \<open>
  The depth gate. A line is decoded with \<open>require_some_depth\<close> set, and it has one
  token \<open>depth\<close>, followed by the number \<open>D\<close>. If \<open>D \<le> 14\<close>, the state is
  returned unchanged: nothing is published.
\<close>

lemma depth_gate_closed:
  assumes shape: "tokens line = pre @ ''depth'' # dtok # post"
    and pre: "''depth'' \<notin> set pre" and post: "''depth'' \<notin> set post"
    and D: "read_int [dtok] = Some (D, [])"
    and low: "D \<le> 14"
  shows "AuxEncode_and_Enqueue e line d b p ms source True s = s"
proof -
  let ?sp = "ends_in_space line"
  let ?st0 = "decode_start e d b p ms"
  let ?st1 = "?st0\<lparr>depth_reached := D\<rparr>"
  have a: "decode_loop e True ?sp (tokens line) ?st0 = None \<or>
           decode_loop e True ?sp (tokens line) ?st0 =
             decode_loop e True ?sp (''depth'' # dtok # post) ?st0"
    unfolding shape
    using decode_loop_gate_closed_prefix [of ?st0 pre "''depth'' # dtok # post" e ?sp] pre
    by (simp add: decode_start_simps del: decode_loop.simps)
  have b: "decode_loop e True ?sp post ?st1 = None \<or>
           decode_loop e True ?sp post ?st1 = Some ?st1"
    using decode_loop_gate_closed [of ?st1 post e ?sp] low post by simp
  have "decode_loop e True ?sp (tokens line) ?st0 = None \<or>
        decode_loop e True ?sp (tokens line) ?st0 = Some ?st1"
    using a b decode_loop_depth [OF D, of e True ?sp post ?st0] by auto
  then show ?thesis
    by (auto simp: AuxEncode_and_Enqueue_def decode_start_simps)
qed

text \<open>
  If \<open>D > 14\<close> and the token \<open>pv\<close> comes after the depth, followed by a token that
  \<open>ParseMove\<close> accepts and that the inner loop reaches (another token follows it, or
  the line ends in white space), and the line has no token \<open>string\<close>, then one entry
  is appended to the Result Queue, the path of the node followed by at least one move, and
  the source tag is appended to the queue of tags.
\<close>

lemma depth_gate_open:
  assumes shape: "tokens line = pre @ ''depth'' # dtok # mid @ ''pv'' # mv # rest"
    and plain: "''depth'' \<notin> set (pre @ mid @ rest)" "''string'' \<notin> set (pre @ mid @ rest)"
      "''pv'' \<notin> set mid"
    and D: "read_int [dtok] = Some (D, [])"
    and high: "14 < D"
    and reach: "rest \<noteq> [] \<or> ends_in_space line"
    and mv: "ParseMove e mv (\<not> (IsBlackToMove e \<noteq> (d mod 2 = 0))) = Some m"
  shows "\<exists>pv. pv \<noteq> [] \<and>
         AuxEncode_and_Enqueue e line d b p ms source True s =
           s\<lparr>fast_track_extend_and_evaluate_queue :=
               fast_track_extend_and_evaluate_queue s @ [ms @ pv],
             source_of_PVs := source_of_PVs s @ [source]\<rparr>"
proof -
  let ?sp = "ends_in_space line"
  let ?st0 = "decode_start e d b p ms"
  let ?st1 = "?st0\<lparr>depth_reached := D\<rparr>"
  obtain st' rest' where pl: "pv_loop e ?sp rest (pv_step e ?st1 m) = (st', rest')"
    by (cases "pv_loop e ?sp rest (pv_step e ?st1 m)")
  from pv_loop_invariant [OF pl] have inv:
    "extends (pv_step e ?st1 m) st'" "set rest' \<subseteq> set rest" by simp_all
  have first: "pv_loop e ?sp (mv # rest) ?st1 = (st', rest')"
    using high reach mv pl by (auto simp: decode_start_simps max_pv_length_def)
  have "decode_loop e True ?sp (tokens line) ?st0 =
        decode_loop e True ?sp (''depth'' # dtok # mid @ ''pv'' # mv # rest) ?st0"
    unfolding shape
    using decode_loop_gate_closed_skip [of ?st0 pre _ e ?sp] plain
    by (simp add: decode_start_simps)
  also have "\<dots> = decode_loop e True ?sp (mid @ ''pv'' # mv # rest) ?st1"
    using decode_loop_depth [OF D] by simp
  also have "\<dots> = decode_loop e True ?sp (''pv'' # mv # rest) ?st1"
    using decode_loop_skip_all [of mid _ e True ?sp] plain by simp
  also have "\<dots> = decode_loop e True ?sp rest' st'"
    using high first by simp
  finally have run:
    "decode_loop e True ?sp (tokens line) ?st0 = decode_loop e True ?sp rest' st'" .
  have "''string'' \<notin> set rest'" "''depth'' \<notin> set rest'"
    using inv(2) plain by auto
  from decode_loop_extends [OF this, of e True ?sp st'] obtain st'' where
    fin: "decode_loop e True ?sp rest' st' = Some st''" and ext: "extends st' st''" by blast
  have "extends ?st1 st''"
    using extends_trans [OF extends_pv_step [of ?st1 e m]] inv(1) ext extends_trans by blast
  then obtain xs where xs: "my_moves_from_the_white_side st'' = ms @ xs"
    "length (pv_moves st'') = length xs"
    by (auto simp: extends_def decode_start_simps)
  have "extends (pv_step e ?st1 m) st''" using inv(1) ext extends_trans by blast
  then have "length (pv_moves st'') > 0"
    by (auto simp: extends_def pv_step_def Let_def)
  then have "xs \<noteq> []" using xs by auto
  then show ?thesis
    using run fin xs by (auto simp: AuxEncode_and_Enqueue_def intro!: exI [of _ xs])
qed

text \<open>
  The instances of the specification: with depth 10 nothing is published, with depth 15
  the same line yields a publication.
\<close>

lemma depth_gate_examples:
  "AuxEncode_and_Enqueue env0 ''info depth 10 pv e2e4 e7e5'' 0 False [] [] 3 True search0 =
     search0 \<and>
   length (fast_track_extend_and_evaluate_queue
     (AuxEncode_and_Enqueue env0 ''info depth 15 pv e2e4 e7e5'' 0 False [] [] 3 True search0)) =
     1 \<and>
   source_of_PVs
     (AuxEncode_and_Enqueue env0 ''info depth 15 pv e2e4 e7e5'' 0 False [] [] 3 True search0) =
     [3]"
proof -
  have t10: "tokens ''info depth 10 pv e2e4 e7e5'' =
      [''info''] @ ''depth'' # ''10'' # [''pv'', ''e2e4'', ''e7e5'']"
    and t15: "tokens ''info depth 15 pv e2e4 e7e5'' =
      [''info''] @ ''depth'' # ''15'' # [] @ ''pv'' # ''e2e4'' # [''e7e5'']"
    by (simp_all add: tokens_def isspace_def)
  have r10: "read_int [''10''] = Some (10, [])" and r15: "read_int [''15''] = Some (15, [])"
    by (simp_all add: read_int_def isdigit_def digits_value_def)
  show ?thesis
    using depth_gate_closed [OF t10 _ _ r10, where e = env0 and d = 0 and b = False
        and p = "[]" and ms = "[]" and source = 3 and s = search0]
      depth_gate_open [OF t15 _ _ _ r15, where e = env0 and d = 0 and b = False and p = "[]"
        and ms = "[]" and source = 3 and s = search0 and m = "''e2e4''"]
    by (auto simp: example_defs)
qed

text \<open>
  C3 (what the code does). The line is decoded with \<open>require_some_depth\<close> set; the
  helper reports depth 15, above the floor of 14, and the PV of the line is the one move
  e2e4, which \<open>ParseMove\<close> accepts. The move is the last token of the line, so the
  condition of the inner loop at line 404 is false for it: no move is decoded and nothing
  is published, the state is returned as it was. The same line with a blank at its end
  publishes the move, and so does the line with a second move behind the first, of which
  the second is lost in the same way.
\<close>

theorem single_move_pv_is_not_published:
  "ParseMove env0 ''e2e4'' False = Some ''e2e4'' \<and>
   AuxEncode_and_Enqueue env0 ''info depth 15 pv e2e4'' 0 False [] [] 3 True search0 = search0 \<and>
   fast_track_extend_and_evaluate_queue
     (AuxEncode_and_Enqueue env0 ''info depth 15 pv e2e4 '' 0 False [] [] 3 True search0) =
     [[''e2e4'']] \<and>
   fast_track_extend_and_evaluate_queue
     (AuxEncode_and_Enqueue env0 ''info depth 15 pv e2e4 e7e5'' 0 False [] [] 3 True search0) =
     [[''e2e4'']]"
  by (simp add: model_defs example_defs)

text \<open>
  The number of decoded moves. A line has one token \<open>depth\<close> with the number \<open>D\<close>,
  then the token \<open>pv\<close>, and none of the other tokens is \<open>string\<close>, \<open>depth\<close> or
  \<open>pv\<close>; the depth gate is open (the depth is not required, or \<open>D > 14\<close>). Then the
  number of decoded moves is the smallest of the number of leading PV tokens within reach
  of the loop that parse, \<open>D - 1\<close> and 98; it exceeds neither the reported depth nor the
  cap of 99. The moves are published behind the path of the node if there is at least one,
  and nothing is published otherwise.
\<close>

lemma decoded_moves:
  assumes shape: "tokens line = pre @ ''depth'' # dtok # mid @ ''pv'' # pvtoks"
    and plain: "set (pre @ mid @ pvtoks) \<inter> {''string'', ''depth'', ''pv''} = {}"
    and D: "read_int [dtok] = Some (D, [])"
    and gate: "\<not> r \<or> 14 < D"
  shows
    "\<exists>pv. length pv =
            min (parseable_prefix e (\<not> (IsBlackToMove e \<noteq> (d mod 2 = 0)))
                   (loop_tokens (ends_in_space line) pvtoks))
                (nat (min D 99 - 1)) \<and>
          length pv \<le> nat D \<and> length pv < 99 \<and>
          AuxEncode_and_Enqueue e line d b p ms source r s =
            (if pv = [] then s
             else s\<lparr>fast_track_extend_and_evaluate_queue :=
                      fast_track_extend_and_evaluate_queue s @ [ms @ pv],
                    source_of_PVs := source_of_PVs s @ [source]\<rparr>)"
proof -
  let ?sp = "ends_in_space line"
  let ?st0 = "decode_start e d b p ms"
  let ?st1 = "?st0\<lparr>depth_reached := D\<rparr>"
  obtain st' rest' where pl: "pv_loop e ?sp pvtoks ?st1 = (st', rest')"
    by (cases "pv_loop e ?sp pvtoks ?st1")
  from pv_loop_invariant [OF pl] have inv: "extends ?st1 st'" "set rest' \<subseteq> set pvtoks"
    by simp_all
  have cnt: "length (pv_moves st') =
      min (parseable_prefix e (\<not> (IsBlackToMove e \<noteq> (d mod 2 = 0))) (loop_tokens ?sp pvtoks))
          (nat (min D 99 - 1))"
    using pv_loop_count [OF pl] by (simp add: decode_start_simps max_pv_length_def)
  have run: "decode_loop e r ?sp (tokens line) ?st0 = Some st'"
  proof (cases "pvtoks = [] \<and> \<not> ?sp")
    case True
    then have "st' = ?st1" using pl by simp
    have "decode_loop e r ?sp (tokens line) ?st0 =
          decode_loop e r ?sp (''depth'' # dtok # mid @ [''pv'']) ?st0"
      unfolding shape using decode_loop_skip_all [of pre _ e r ?sp] plain True by auto
    also have "\<dots> = decode_loop e r ?sp (mid @ [''pv'']) ?st1"
      using decode_loop_depth [OF D] by simp
    also have "\<dots> = decode_loop e r ?sp [''pv''] ?st1"
      using decode_loop_skip_all [of mid _ e r ?sp] plain by auto
    also have "\<dots> = Some ?st1"
      using True by simp
    finally show ?thesis using \<open>st' = ?st1\<close> by simp
  next
    case False
    have "decode_loop e r ?sp (tokens line) ?st0 =
          decode_loop e r ?sp (''depth'' # dtok # mid @ ''pv'' # pvtoks) ?st0"
      unfolding shape using decode_loop_skip_all [of pre _ e r ?sp] plain by auto
    also have "\<dots> = decode_loop e r ?sp (mid @ ''pv'' # pvtoks) ?st1"
      using decode_loop_depth [OF D] by simp
    also have "\<dots> = decode_loop e r ?sp (''pv'' # pvtoks) ?st1"
      using decode_loop_skip_all [of mid _ e r ?sp] plain by auto
    also have "\<dots> = decode_loop e r ?sp rest' st'"
      using gate pl False by auto
    also have "\<dots> = Some st'"
      using decode_loop_plain [of rest' e r ?sp st'] inv(2) plain by auto
    finally show ?thesis .
  qed
  obtain xs where xs: "my_moves_from_the_white_side st' = ms @ xs"
    "length (pv_moves st') = length xs"
    using inv(1) by (auto simp: extends_def decode_start_simps)
  have "nat (min D 99 - 1) \<le> nat D" "nat (min D 99 - 1) < 99"
    by auto
  then have "length xs \<le> nat D" "length xs < 99"
    using cnt xs(2) by (simp_all add: min_le_iff_disj min_less_iff_disj)
  then show ?thesis
    using run xs cnt by (auto simp: AuxEncode_and_Enqueue_def intro!: exI [of _ xs])
qed

text \<open>
  Two instances: three moves are decoded before a token that does not parse when the
  helper reports depth 10, and 9 moves out of 30.
\<close>

lemma decoded_moves_examples:
  "length (last (fast_track_extend_and_evaluate_queue
     (AuxEncode_and_Enqueue env0 ''info depth 10 pv e2e4 e7e5 g1f3 zzzz a1a2'' 0 False [] [] 3
        False search0))) = 3 \<and>
   length (last (fast_track_extend_and_evaluate_queue
     (AuxEncode_and_Enqueue env0 long_line 0 False [] [] 3 False search0))) = 9"
proof -
  have t: "tokens ''info depth 10 pv e2e4 e7e5 g1f3 zzzz a1a2'' =
      [''info''] @ ''depth'' # ''10'' # [] @
      ''pv'' # [''e2e4'', ''e7e5'', ''g1f3'', ''zzzz'', ''a1a2'']"
    and t30: "tokens long_line = [''info''] @ ''depth'' # ''10'' # [] @ ''pv'' # long_line_pv"
    by (simp_all add: tokens_def isspace_def long_line_def long_line_pv_def)
  have sp: "\<not> ends_in_space ''info depth 10 pv e2e4 e7e5 g1f3 zzzz a1a2''"
    "\<not> ends_in_space long_line"
    by (simp_all add: ends_in_space_def isspace_def long_line_def)
  have r: "read_int [''10''] = Some (10, [])"
    by (simp add: read_int_def isdigit_def digits_value_def)
  show ?thesis
    using decoded_moves [OF t _ r, where r = False and e = env0 and d = 0 and b = False
        and p = "[]" and ms = "[]" and source = 3 and s = search0]
      decoded_moves [OF t30 _ r, where r = False and e = env0 and d = 0 and b = False
        and p = "[]" and ms = "[]" and source = 3 and s = search0]
    by (auto simp: example_defs long_line_pv_def loop_tokens_def sp)
qed

text \<open>
  C4 (what the code does). The helper reports depth 3, and the PV has three tokens that
  \<open>ParseMove\<close> accepts before the token zzzz, which it rejects. The PV is meant to be
  capped at the reported depth (lines 381-382: ``\<open>depth_reached\<close> records the depth the
  helper claim to have search. The PV is capped at this length''), which admits the three
  moves. But \<open>pv_length\<close> starts at 1 (line 384) and the loop goes on only while
  \<open>pv_length < depth_reached\<close> (line 405): the third move is extracted and dropped, and
  two moves are decoded and published.
\<close>

theorem pv_is_capped_below_reported_depth:
  "ParseMove env0 ''e2e4'' False = Some ''e2e4'' \<and>
   ParseMove env0 ''e7e5'' True = Some ''e7e5'' \<and>
   ParseMove env0 ''g1f3'' False = Some ''g1f3'' \<and>
   ParseMove env0 ''zzzz'' True = None \<and>
   fast_track_extend_and_evaluate_queue
     (AuxEncode_and_Enqueue env0 ''info depth 3 pv e2e4 e7e5 g1f3 zzzz'' 0 False [] [] 3 False
        search0) = [[''e2e4'', ''e7e5'']]"
  by (simp add: model_defs example_defs)

subsection \<open>The loop over the lines of the helper\<close>

lemma AuxEncode_frame:
  "opstreams (AuxEncode_and_Enqueue e l d b p ms src r s) = opstreams s"
  "auxengine_stopped (AuxEncode_and_Enqueue e l d b p ms src r s) = auxengine_stopped s"
  "stop (AuxEncode_and_Enqueue e l d b p ms src r s) = stop s"
  "source_of_queued_nodes (AuxEncode_and_Enqueue e l d b p ms src r s) = source_of_queued_nodes s"
  by (simp_all add: AuxEncode_and_Enqueue_def split: option.split)

lemma stops_sent_frame [simp]:
  "stops_sent index (AuxEncode_and_Enqueue e l d b p ms src r s) = stops_sent index s"
  "stops_sent index (send index Stop s) = stops_sent index s + 1"
  "stops_sent index (s\<lparr>auxengine_stopped := x\<rparr>) = stops_sent index s"
  "stops_sent index (s\<lparr>stop := y\<rparr>) = stops_sent index s"
  by (simp_all add: stops_sent_def send_def AuxEncode_frame)

lemma stream_step_terminating:
  "token v \<noteq> ''bestmove'' \<Longrightarrow> terminating line \<Longrightarrow>
   \<exists>v'. stream_step e index t line v s = Inr (Break (v', s))"
  by (auto simp: stream_step_def terminating_def Let_def split: list.splits)

lemma stream_step_next:
  "token v \<noteq> ''bestmove'' \<Longrightarrow> \<not> terminating line \<Longrightarrow>
   stream_step e index t line v s = Inr x \<Longrightarrow>
   \<exists>v' s'. x = Next (v', s') \<and> token v' \<noteq> ''bestmove'' \<and> prev_line v' = line"
  by (auto simp: stream_step_def terminating_def Let_def split: list.splits if_splits)


lemma processed_simps [simp]:
  "processed [] = []"
  "terminating l \<Longrightarrow> processed ((l, b) # ls) = []"
  "\<not> terminating l \<Longrightarrow> processed ((l, b) # ls) = (l, b) # processed ls"
  by (simp_all add: processed_def)

lemma bestmove_info_count_simps [simp]:
  "bestmove_info_count [] = 0"
  "bestmove_info_count ((l, b) # ls) = (if bestmove_info l then 1 else 0) + bestmove_info_count ls"
  by (simp_all add: bestmove_info_count_def)

lemma step_stopping:
  assumes "token v \<noteq> ''bestmove''" "\<not> terminating line" "stopping v"
  shows "\<exists>v' s'. stream_step e index t line v s = Inr (Next (v', s')) \<and>
           token v' \<noteq> ''bestmove'' \<and> stopping v' \<and> second_stopping v' \<and>
           fast_track_extend_and_evaluate_queue s' = fast_track_extend_and_evaluate_queue s \<and>
           source_of_PVs s' = source_of_PVs s \<and>
           stops_sent index s' =
             stops_sent index s + (if bestmove_info line then 1 else 0) +
             (if second_stopping v then 0 else 1)"
  using assms
  by (auto simp: stream_step_def terminating_def bestmove_info_def Let_def send_def stops_sent_def
      split: list.splits)

lemma step_observe:
  assumes "token v \<noteq> ''bestmove''" "\<not> terminating line" "\<not> stopping v" "stop s"
    "index < length (auxengine_stopped s)"
  shows "\<exists>v' s'. stream_step e index t line v s = Inr (Next (v', s')) \<and>
           token v' \<noteq> ''bestmove'' \<and> stopping v' \<and> second_stopping v' = second_stopping v \<and>
           fast_track_extend_and_evaluate_queue s' = fast_track_extend_and_evaluate_queue s \<and>
           source_of_PVs s' = source_of_PVs s \<and>
           stops_sent index s' =
             stops_sent index s + (if bestmove_info line then 1 else 0) +
             (if auxengine_stopped s ! index then 0 else 1)"
  using assms
  by (auto simp: stream_step_def terminating_def bestmove_info_def Let_def send_def stops_sent_def
      split: list.splits)

lemma step_run:
  assumes "token v \<noteq> ''bestmove''" "\<not> terminating line" "\<not> stopping v" "\<not> stop s"
    "stream_step e index t line v s = Inr x"
  shows "\<exists>v' s'. x = Next (v', s') \<and>
           token v' \<noteq> ''bestmove'' \<and> \<not> stopping v' \<and> second_stopping v' = second_stopping v \<and>
           prev_line v' = line \<and>
           auxengine_stopped s' = auxengine_stopped s \<and>
           stops_sent index s' = stops_sent index s + (if bestmove_info line then 1 else 0)"
  using assms
  by (auto simp: stream_step_def terminating_def bestmove_info_def Let_def send_def stops_sent_def
      AuxEncode_frame split: list.splits if_splits)


lemma loop_stopped:
  assumes "stopping v" "token v \<noteq> ''bestmove''"
  shows "\<exists>v' s'. stream_loop e index t ls v s = Inr (v', s') \<and> stopping v' \<and>
           fast_track_extend_and_evaluate_queue s' = fast_track_extend_and_evaluate_queue s \<and>
           source_of_PVs s' = source_of_PVs s \<and>
           stops_sent index s' =
             stops_sent index s + bestmove_info_count (processed ls) +
             (if \<not> second_stopping v \<and> processed ls \<noteq> [] then 1 else 0)"
  using assms
proof (induction ls arbitrary: v s)
  case Nil
  then show ?case by simp
next
  case (Cons a ls)
  obtain l b where a: "a = (l, b)" by (cases a)
  show ?case
  proof (cases "terminating l")
    case True
    from stream_step_terminating [OF Cons.prems(2) True, of e index t "s\<lparr>stop := b\<rparr>"]
    obtain v' where "stream_step e index t l v (s\<lparr>stop := b\<rparr>) = Inr (Break (v', s\<lparr>stop := b\<rparr>))"
      by blast
    moreover have "stopping v'"
      using calculation Cons.prems(1)
      by (auto simp: stream_step_def Let_def split: if_splits)
    ultimately show ?thesis using True by (simp add: a)
  next
    case False
    from step_stopping [OF Cons.prems(2) False Cons.prems(1), of e index t "s\<lparr>stop := b\<rparr>"]
    obtain v1 s1 where st: "stream_step e index t l v (s\<lparr>stop := b\<rparr>) = Inr (Next (v1, s1))"
      and v1: "token v1 \<noteq> ''bestmove''" "stopping v1" "second_stopping v1"
      and s1: "fast_track_extend_and_evaluate_queue s1 = fast_track_extend_and_evaluate_queue s"
        "source_of_PVs s1 = source_of_PVs s"
        "stops_sent index s1 = stops_sent index s + (if bestmove_info l then 1 else 0) +
           (if second_stopping v then 0 else 1)"
      by auto
    from Cons.IH [OF v1(2) v1(1), of s1] obtain v' s' where
      "stream_loop e index t ls v1 s1 = Inr (v', s')" "stopping v'"
      "fast_track_extend_and_evaluate_queue s' = fast_track_extend_and_evaluate_queue s1"
      "source_of_PVs s' = source_of_PVs s1"
      "stops_sent index s' = stops_sent index s1 + bestmove_info_count (processed ls) +
         (if \<not> second_stopping v1 \<and> processed ls \<noteq> [] then 1 else 0)"
      by blast
    then show ?thesis
      using st v1 s1 False by (simp add: a)
  qed
qed

lemma loop_append:
  assumes "\<forall>(l, b) \<in> set pre. \<not> terminating l" "token v \<noteq> ''bestmove''"
  shows "stream_loop e index t (pre @ rest) v s =
     (case stream_loop e index t pre v s of
        Inl err \<Rightarrow> Inl err
      | Inr (v1, s1) \<Rightarrow> stream_loop e index t rest v1 s1)"
  using assms
proof (induction pre arbitrary: v s)
  case Nil
  then show ?case by simp
next
  case (Cons a pre)
  obtain l b where a: "a = (l, b)" by (cases a)
  have nt: "\<not> terminating l" using Cons.prems(1) a by simp
  show ?case
  proof (cases "stream_step e index t l v (s\<lparr>stop := b\<rparr>)")
    case (Inl err)
    then show ?thesis by (simp add: a)
  next
    case (Inr x)
    from stream_step_next [OF Cons.prems(2) nt Inr] obtain v' s' where
      x: "x = Next (v', s')" and tok: "token v' \<noteq> ''bestmove''" by blast
    have "\<forall>(l, b) \<in> set pre. \<not> terminating l" using Cons.prems(1) by simp
    from Cons.IH [OF this tok, of s'] show ?thesis
      using Inr x by (simp add: a)
  qed
qed

lemma loop_quiet:
  assumes "\<forall>(l, b) \<in> set pre. \<not> b \<and> \<not> terminating l" "\<not> stopping v"
    "token v \<noteq> ''bestmove''" "stream_loop e index t pre v s = Inr (v1, s1)"
  shows "\<not> stopping v1 \<and> token v1 \<noteq> ''bestmove'' \<and>
         second_stopping v1 = second_stopping v \<and>
         prev_line v1 = (if pre = [] then prev_line v else fst (last pre)) \<and>
         auxengine_stopped s1 = auxengine_stopped s \<and>
         stops_sent index s1 = stops_sent index s + bestmove_info_count pre"
  using assms
proof (induction pre arbitrary: v s)
  case Nil
  then show ?case by simp
next
  case (Cons a pre)
  obtain l b where a: "a = (l, b)" by (cases a)
  have nt: "\<not> terminating l" and nb: "\<not> b" using Cons.prems(1) a by simp_all
  obtain x where x: "stream_step e index t l v (s\<lparr>stop := b\<rparr>) = Inr x"
    using Cons.prems(4) by (cases "stream_step e index t l v (s\<lparr>stop := b\<rparr>)") (auto simp: a)
  from step_run [OF Cons.prems(3) nt Cons.prems(2) _ x] nb obtain v' s' where
    n: "x = Next (v', s')" "token v' \<noteq> ''bestmove''" "\<not> stopping v'"
      "second_stopping v' = second_stopping v" "prev_line v' = l"
      "auxengine_stopped s' = auxengine_stopped (s\<lparr>stop := b\<rparr>)"
      "stops_sent index s' = stops_sent index (s\<lparr>stop := b\<rparr>) +
         (if bestmove_info l then 1 else 0)"
    by auto
  have rest: "stream_loop e index t pre v' s' = Inr (v1, s1)"
    using Cons.prems(4) x n(1) by (simp add: a)
  have "\<forall>(l, b) \<in> set pre. \<not> b \<and> \<not> terminating l" using Cons.prems(1) by simp
  from Cons.IH [OF this n(3) n(2) rest] show ?case
    using n by (auto simp: a)
qed


lemma start_query_frame:
  assumes "start_query e index t s = Inr s0"
  shows "index < length (auxengine_stopped s0)" "\<not> auxengine_stopped s0 ! index"
    "fast_track_extend_and_evaluate_queue s0 = fast_track_extend_and_evaluate_queue s"
    "source_of_PVs s0 = source_of_PVs s" "stops_sent index s0 = stops_sent index s"
  using assms
  by (auto simp: start_query_def Let_def send_def stops_sent_def split: if_splits)

lemma step_break:
  "token v \<noteq> ''bestmove'' \<Longrightarrow> terminating line \<Longrightarrow>
   \<exists>tok. stream_step e index t line v s = Inr (Break (v\<lparr>token := tok\<rparr>, s))"
  by (auto simp: stream_step_def terminating_def Let_def split: list.splits)


lemma step_observe_out_of_range:
  assumes "token v \<noteq> ''bestmove''" "\<not> terminating line" "\<not> stopping v" "stop s"
    "\<not> index < length (auxengine_stopped s)"
  shows "stream_step e index t line v s = Inl UndefinedBehaviour"
  using assms
  by (auto simp: stream_step_def terminating_def Let_def send_def split: list.splits)

lemma loop_run:
  assumes "\<not> stopping v" "\<not> second_stopping v" "token v \<noteq> ''bestmove''"
    "stream_loop e index t ls v s = Inr (v', s')"
  shows "stops_sent index s' =
     stops_sent index s + bestmove_info_count (processed ls) +
     (if dropWhile (\<lambda>(l, b). \<not> b) (processed ls) \<noteq> [] \<and> \<not> auxengine_stopped s ! index
      then 1 else 0) +
     (if 2 \<le> length (dropWhile (\<lambda>(l, b). \<not> b) (processed ls)) then 1 else 0)"
  using assms
proof (induction ls arbitrary: v s)
  case Nil
  then show ?case by simp
next
  case (Cons a ls)
  obtain l b where a: "a = (l, b)" by (cases a)
  show ?case
  proof (cases "terminating l")
    case True
    from step_break [OF Cons.prems(3) True, of e index t "s\<lparr>stop := b\<rparr>"] obtain tok where
      "stream_step e index t l v (s\<lparr>stop := b\<rparr>) = Inr (Break (v\<lparr>token := tok\<rparr>, s\<lparr>stop := b\<rparr>))"
      by blast
    then have "s' = s\<lparr>stop := b\<rparr>" using Cons.prems(4) by (simp add: a)
    then show ?thesis using True by (simp add: a)
  next
    case nt: False
    show ?thesis
    proof (cases b)
      case False
      obtain x where x: "stream_step e index t l v (s\<lparr>stop := b\<rparr>) = Inr x"
        using Cons.prems(4)
        by (cases "stream_step e index t l v (s\<lparr>stop := b\<rparr>)") (auto simp: a)
      from step_run [OF Cons.prems(3) nt Cons.prems(1) _ x] False obtain v1 s1 where
        n: "x = Next (v1, s1)" "token v1 \<noteq> ''bestmove''" "\<not> stopping v1"
          "second_stopping v1 = second_stopping v"
          "auxengine_stopped s1 = auxengine_stopped (s\<lparr>stop := b\<rparr>)"
          "stops_sent index s1 = stops_sent index (s\<lparr>stop := b\<rparr>) +
             (if bestmove_info l then 1 else 0)"
        by auto
      have rest: "stream_loop e index t ls v1 s1 = Inr (v', s')"
        using Cons.prems(4) x n(1) by (simp add: a)
      from Cons.IH [OF n(3) _ n(2) rest] n(4) Cons.prems(2) show ?thesis
        using n(5,6) nt False by (simp add: a)
    next
      case True
      have idx: "index < length (auxengine_stopped (s\<lparr>stop := b\<rparr>))"
      proof (rule ccontr)
        assume "\<not> index < length (auxengine_stopped (s\<lparr>stop := b\<rparr>))"
        from step_observe_out_of_range [OF Cons.prems(3) nt Cons.prems(1) _ this, of e t] True
        show False using Cons.prems(4) by (simp add: a)
      qed
      from step_observe [OF Cons.prems(3) nt Cons.prems(1) _ idx, of e t] True obtain v1 s1 where
        st: "stream_step e index t l v (s\<lparr>stop := b\<rparr>) = Inr (Next (v1, s1))"
        and v1: "token v1 \<noteq> ''bestmove''" "stopping v1" "second_stopping v1 = second_stopping v"
        and s1: "stops_sent index s1 =
           stops_sent index (s\<lparr>stop := b\<rparr>) + (if bestmove_info l then 1 else 0) +
           (if auxengine_stopped (s\<lparr>stop := b\<rparr>) ! index then 0 else 1)"
        by auto
      from loop_stopped [OF v1(2) v1(1), of e index t ls s1] obtain v2 s2 where
        fin: "stream_loop e index t ls v1 s1 = Inr (v2, s2)"
          "stops_sent index s2 = stops_sent index s1 + bestmove_info_count (processed ls) +
             (if \<not> second_stopping v1 \<and> processed ls \<noteq> [] then 1 else 0)"
        by blast
      have "s' = s2" using Cons.prems(4) st fin(1) by (simp add: a)
      moreover have "(2 \<le> Suc (length (processed ls))) = (processed ls \<noteq> [])"
        by (cases "processed ls") simp_all
      ultimately show ?thesis
        using fin(2) s1 v1(3) Cons.prems(2) nt True by (simp add: a)
    qed
  qed
qed

lemma finish_query_stops:
  "finish_query e index t running v s = Inr s' \<Longrightarrow> stops_sent index s' = stops_sent index s"
  by (auto simp: finish_query_def Let_def stops_sent_def AuxEncode_frame
      split: if_splits list.splits)

text \<open>
  C7. The helper has been asked, the lines \<open>pre\<close> arrive while the stop flag is clear,
  and the flag is set when the next line \<open>l0\<close> arrives, none of these lines being a
  terminating \<open>bestmove\<close>. Then, whatever follows, the query returns, and the Result
  Queue and the queue of its source tags are as they were after the lines \<open>pre\<close>: the
  line at which the stop is seen and the later ones are not decoded, and nothing is
  published after the loop.
\<close>

theorem stopped_query_publishes_nothing_more:
  assumes start: "start_query e index t s = Inr s0"
    and pre: "stream_loop e index t pre loop_start s0 = Inr (v1, s1)"
    and quiet: "\<forall>(l, b) \<in> set pre. \<not> b \<and> \<not> terminating l"
    and l0: "\<not> terminating l0"
  shows "\<exists>s'. query e index t (pre @ (l0, True) # post) running s = Inr s' \<and>
           fast_track_extend_and_evaluate_queue s' = fast_track_extend_and_evaluate_queue s1 \<and>
           source_of_PVs s' = source_of_PVs s1"
proof -
  have tok0: "token loop_start \<noteq> ''bestmove''" and ns0: "\<not> stopping loop_start"
    by (simp_all add: loop_start_def)
  from loop_quiet [OF quiet ns0 tok0 pre] have v1: "\<not> stopping v1" "token v1 \<noteq> ''bestmove''"
    and as: "auxengine_stopped s1 = auxengine_stopped s0" by simp_all
  have nt: "\<forall>(l, b) \<in> set pre. \<not> terminating l" using quiet by auto
  have split: "stream_loop e index t (pre @ (l0, True) # post) loop_start s0 =
      stream_loop e index t ((l0, True) # post) v1 s1"
    using loop_append [OF nt tok0, of e index t "(l0, True) # post" s0] pre by simp
  have idx: "index < length (auxengine_stopped (s1\<lparr>stop := True\<rparr>))"
    using start_query_frame(1) [OF start] as by simp
  from step_observe [OF v1(2) l0 v1(1) _ idx, of e t] obtain v2 s2 where
    st: "stream_step e index t l0 v1 (s1\<lparr>stop := True\<rparr>) = Inr (Next (v2, s2))"
    and v2: "token v2 \<noteq> ''bestmove''" "stopping v2"
    and s2: "fast_track_extend_and_evaluate_queue s2 = fast_track_extend_and_evaluate_queue s1"
      "source_of_PVs s2 = source_of_PVs s1"
    by auto
  from loop_stopped [OF v2(2) v2(1), of e index t post s2] obtain v' s' where
    fin: "stream_loop e index t post v2 s2 = Inr (v', s')" "stopping v'"
      "fast_track_extend_and_evaluate_queue s' = fast_track_extend_and_evaluate_queue s2"
      "source_of_PVs s' = source_of_PVs s2"
    by blast
  have "query e index t (pre @ (l0, True) # post) running s = Inr s'"
    using start split st fin(1,2) by (simp add: query_def finish_query_def)
  then show ?thesis using fin(3,4) s2 by simp
qed

text \<open>
  The first line is published while the search runs (14 moves, for depth 15); the stop
  is seen at the second line, and neither that line nor the third one is published.
\<close>

theorem stopped_query_publishes_nothing_more_witness:
  "map_sum id fast_track_extend_and_evaluate_queue
     (query env0 1 task0
        [(deep_line, False), (''info depth 21 pv d2d4 d7d5 c2c4'', True),
         (''info depth 22 pv d2d4'', True), (''bestmove e2e4'', True)]
        True (search0\<lparr>auxengine_stopped := [True, True], source_of_queued_nodes := [5]\<rparr>)) =
   Inr [deep_line_moves]"
proof -
  let ?init = "search0\<lparr>auxengine_stopped := [True, True], source_of_queued_nodes := [5]\<rparr>"
  let ?sent = "search0\<lparr>auxengine_stopped := [True, False], source_of_queued_nodes := [5],
    opstreams := [(1, Position ''position fen ''), (1, GoMovetime 0)]\<rparr>"
  have start: "start_query env0 1 task0 ?init = Inr ?sent"
    by (simp add: loop_defs example_defs)
  have "\<exists>v1 s1. stream_loop env0 1 task0 [(deep_line, False)] loop_start ?sent = Inr (v1, s1) \<and>
      fast_track_extend_and_evaluate_queue s1 = [deep_line_moves]"
    by (simp add: loop_defs example_defs deep_line_def deep_line_moves_def)
  then obtain v1 s1 where
    pre: "stream_loop env0 1 task0 [(deep_line, False)] loop_start ?sent = Inr (v1, s1)"
    and ft: "fast_track_extend_and_evaluate_queue s1 = [deep_line_moves]" by blast
  have l0: "\<not> terminating ''info depth 21 pv d2d4 d7d5 c2c4''"
    and quiet: "\<forall>(l, b) \<in> set [(deep_line, False)]. \<not> b \<and> \<not> terminating l"
    by (simp_all add: terminating_def tokens_def isspace_def deep_line_def)
  from stopped_query_publishes_nothing_more [OF start pre quiet l0,
      of "[(''info depth 22 pv d2d4'', True), (''bestmove e2e4'', True)]" True]
  show ?thesis using ft by auto
qed

text \<open>
  C10. The lines \<open>pre\<close> arrive while the stop flag is clear, none of them terminating,
  and then a terminating \<open>bestmove\<close> line. The query marks the helper as not running and
  \<^item> returns without a final publication if no line came before \<open>bestmove\<close> (or the
    last one was empty),
  \<^item> fails with ``AuxEngine died!'' if the helper is not running any more,
  \<^item> and otherwise takes the tag from the front of the queue of source tags and decodes the
    last line of \<open>pre\<close>, without the depth requirement.
  The \<open>bestmove\<close> line is never given to the decoder.
\<close>

theorem final_publication_decodes_previous_line:
  assumes start: "start_query e index t s = Inr s0"
    and pre: "stream_loop e index t pre loop_start s0 = Inr (v1, s1)"
    and quiet: "\<forall>(l, b) \<in> set pre. \<not> b \<and> \<not> terminating l"
    and bm: "terminating bm"
  shows "query e index t (pre @ (bm, b) # rest) running s =
     (if pre = [] \<or> fst (last pre) = [] then
        Inr (s1\<lparr>stop := b, auxengine_stopped := (auxengine_stopped s1)[index := True]\<rparr>)
      else if \<not> running then Inl AuxEngineDied
      else
        (case source_of_queued_nodes s1 of
           [] \<Rightarrow> Inl UndefinedBehaviour
         | source # sources \<Rightarrow>
             Inr (AuxEncode_and_Enqueue e (fst (last pre)) (depth t) (board t) (position t)
                    (moves t) source False
                    (s1\<lparr>stop := b,
                        auxengine_stopped := (auxengine_stopped s1)[index := True],
                        auxengine_num_evals := auxengine_num_evals s1 + 1,
                        source_of_queued_nodes := sources\<rparr>))))"
proof -
  have tok0: "token loop_start \<noteq> ''bestmove''" and ns0: "\<not> stopping loop_start"
    and pl0: "prev_line loop_start = []"
    by (simp_all add: loop_start_def)
  from loop_quiet [OF quiet ns0 tok0 pre] have v1: "\<not> stopping v1" "token v1 \<noteq> ''bestmove''"
    "prev_line v1 = (if pre = [] then [] else fst (last pre))"
    and as: "auxengine_stopped s1 = auxengine_stopped s0" by (simp_all add: pl0)
  have nt: "\<forall>(l, b) \<in> set pre. \<not> terminating l" using quiet by auto
  have split: "stream_loop e index t (pre @ (bm, b) # rest) loop_start s0 =
      stream_loop e index t ((bm, b) # rest) v1 s1"
    using loop_append [OF nt tok0, of e index t "(bm, b) # rest" s0] pre by simp
  from step_break [OF v1(2) bm, of e index t "s1\<lparr>stop := b\<rparr>"] obtain tok where
    "stream_step e index t bm v1 (s1\<lparr>stop := b\<rparr>) = Inr (Break (v1\<lparr>token := tok\<rparr>, s1\<lparr>stop := b\<rparr>))"
    by blast
  then have loop: "stream_loop e index t (pre @ (bm, b) # rest) loop_start s0 =
      Inr (v1\<lparr>token := tok\<rparr>, s1\<lparr>stop := b\<rparr>)"
    using split by simp
  have idx: "index < length (auxengine_stopped s1)"
    using start_query_frame(1) [OF start] as by simp
  show ?thesis
    using start loop v1 idx
    by (auto simp: query_def finish_query_def Let_def split: list.splits)
qed

text \<open>
  The line before \<open>bestmove\<close> has depth 3, so it is not published while the search
  runs, and it is what the final publication decodes (two moves, for depth 3); with
  \<open>bestmove\<close> alone nothing is published.
\<close>

theorem final_publication_decodes_previous_line_witness:
  "map_sum id fast_track_extend_and_evaluate_queue
     (query env0 1 task0 [(''info depth 3 pv e2e4 e7e5 g1f3'', False), (''bestmove g1f3'', False)]
        True (search0\<lparr>auxengine_stopped := [True, True], source_of_queued_nodes := [5]\<rparr>)) =
   Inr [[''e2e4'', ''e7e5'']] \<and>
   map_sum id fast_track_extend_and_evaluate_queue
     (query env0 1 task0 [(''bestmove g1f3'', False)]
        True (search0\<lparr>auxengine_stopped := [True, True], source_of_queued_nodes := [5]\<rparr>)) =
   Inr []"
proof -
  let ?init = "search0\<lparr>auxengine_stopped := [True, True], source_of_queued_nodes := [5]\<rparr>"
  let ?sent = "search0\<lparr>auxengine_stopped := [True, False], source_of_queued_nodes := [5],
    opstreams := [(1, Position ''position fen ''), (1, GoMovetime 0)]\<rparr>"
  let ?vars = "\<lparr>prev_line = ''info depth 3 pv e2e4 e7e5 g1f3'', token = ''info'', stopping = False,
    second_stopping = False\<rparr>"
  have start: "start_query env0 1 task0 ?init = Inr ?sent"
    by (simp add: loop_defs example_defs)
  have pre: "stream_loop env0 1 task0 [(''info depth 3 pv e2e4 e7e5 g1f3'', False)] loop_start ?sent
           = Inr (?vars, ?sent)"
    by (simp add: loop_defs example_defs)
  have none: "stream_loop env0 1 task0 [] loop_start ?sent = Inr (loop_start, ?sent)"
    by simp
  have bm: "terminating ''bestmove g1f3''"
    and quiet: "\<forall>(l, b) \<in> set [(''info depth 3 pv e2e4 e7e5 g1f3'', False)]. \<not> b \<and> \<not> terminating l"
    by (simp_all add: terminating_def tokens_def isspace_def)
  from final_publication_decodes_previous_line [OF start pre quiet bm, of False "[]" True]
    final_publication_decodes_previous_line [OF start none _ bm, of False "[]" True]
  show ?thesis
    by (simp add: AuxEncode_and_Enqueue_def decode_start_def pv_step_def max_pv_length_def
        tokens_def isspace_def read_int_def isdigit_def digits_value_def Let_def example_defs)
qed

text \<open>
  C8 as stated fails: the stop is seen at the first line, the second line triggers the
  second \<open>stop\<close>, and the malformed line \<open>bestmove info\<close> that follows is answered by a
  third one (line 608).
\<close>

theorem third_stop_counterexample:
  "query env0 1 task0
     [(''info depth 1'', True), (''info depth 2'', True), (''bestmove info'', True),
      (''bestmove e2e4'', True)]
     True (search0\<lparr>auxengine_stopped := [True, True]\<rparr>) =
   Inr (search0
     \<lparr>stop := True, auxengine_stopped := [True, True],
      opstreams := [(1, Position ''position fen ''), (1, GoMovetime 0),
                    (1, Stop), (1, Stop), (1, Stop)]\<rparr>)"
  by (simp add: query_def finish_query_def loop_defs example_defs)

text \<open>
  C8, amended. For a query that returns, the \<open>stop\<close> commands written to its helper are:
  one for each malformed line \<open>bestmove info\<close> among the processed lines, whether the stop
  was seen or not; one when the stop flag is first seen set at a processed line; and one
  more if at least one further line is processed after that one. The stop-signal path
  and the \<open>second_stopping\<close> path send at most one \<open>stop\<close> each.
\<close>

theorem stop_commands_of_a_query:
  assumes "query e index t helper_lines running s = Inr s'"
  shows "stops_sent index s' =
     stops_sent index s + bestmove_info_count (processed helper_lines) +
     (if since_stop helper_lines \<noteq> [] then 1 else 0) +
     (if 2 \<le> length (since_stop helper_lines) then 1 else 0)"
proof -
  obtain s0 where start: "start_query e index t s = Inr s0"
    using assms by (cases "start_query e index t s") (auto simp: query_def)
  obtain v1 s1 where loop: "stream_loop e index t helper_lines loop_start s0 = Inr (v1, s1)"
    using assms start
    by (cases "stream_loop e index t helper_lines loop_start s0") (auto simp: query_def)
  have fin: "finish_query e index t running v1 s1 = Inr s'"
    using assms start loop by (simp add: query_def)
  have "stops_sent index s1 =
     stops_sent index s0 + bestmove_info_count (processed helper_lines) +
     (if dropWhile (\<lambda>(l, b). \<not> b) (processed helper_lines) \<noteq> [] \<and>
         \<not> auxengine_stopped s0 ! index then 1 else 0) +
     (if 2 \<le> length (dropWhile (\<lambda>(l, b). \<not> b) (processed helper_lines)) then 1 else 0)"
    by (rule loop_run [OF _ _ _ loop]) (simp_all add: loop_start_def)
  then show ?thesis
    using start_query_frame(2,5) [OF start] finish_query_stops [OF fin]
    by (simp add: since_stop_def)
qed

text \<open>Three lines after the stop and no malformed line: two \<open>stop\<close> commands.\<close>

theorem stop_commands_of_a_query_witness:
  "map_sum id (stops_sent 1)
     (query env0 1 task0
        [(''info depth 1'', True), (''info depth 2'', True), (''info depth 3'', True),
         (''bestmove e2e4'', True)]
        True (search0\<lparr>auxengine_stopped := [True, True], source_of_queued_nodes := [5]\<rparr>)) =
   Inr 2"
proof -
  let ?init = "search0\<lparr>auxengine_stopped := [True, True], source_of_queued_nodes := [5]\<rparr>"
  let ?ls = "[(''info depth 1'', True), (''info depth 2'', True), (''info depth 3'', True),
         (''bestmove e2e4'', True)]"
  have "\<exists>s'. query env0 1 task0 ?ls True ?init = Inr s'"
    by (simp add: query_def finish_query_def loop_defs example_defs)
  then obtain s' where q: "query env0 1 task0 ?ls True ?init = Inr s'" by blast
  have t: "\<not> terminating ''info depth 1''" "\<not> terminating ''info depth 2''"
    "\<not> terminating ''info depth 3''" "terminating ''bestmove e2e4''"
    "\<not> bestmove_info ''info depth 1''" "\<not> bestmove_info ''info depth 2''"
    "\<not> bestmove_info ''info depth 3''"
    by (simp_all add: terminating_def bestmove_info_def tokens_def isspace_def)
  from stop_commands_of_a_query [OF q] show ?thesis
    using q t by (simp add: stops_sent_def search0_def since_stop_def)
qed

end
